theory Spec2Isabelle
  imports Main "HOL-Library.Word" "HOL-Library.Char_ord" "HOL-Library.List_Lexorder"
begin

section \<open>Strings\<close>

text \<open>
  Go strings are byte sequences; they are modelled as \<open>string\<close> (a list of 8-bit
  characters). The functions of package \<open>strings\<close> that the program calls are written
  out on bytes.
\<close>

type_synonym int64 = "64 word"

text \<open>\<open>strings.HasPrefix(s, prefix)\<close> and \<open>strings.HasSuffix(s, suffix)\<close>.\<close>

definition HasPrefix :: "string \<Rightarrow> string \<Rightarrow> bool" where
  "HasPrefix s pre = (take (length pre) s = pre)"

definition HasSuffix :: "string \<Rightarrow> string \<Rightarrow> bool" where
  "HasSuffix s suf = (length suf \<le> length s \<and> drop (length s - length suf) s = suf)"

text \<open>\<open>strings.Contains(s, substr)\<close>: \<open>substr\<close> occurs at some position of \<open>s\<close>.\<close>

fun Contains :: "string \<Rightarrow> string \<Rightarrow> bool" where
  "Contains [] sub = (sub = [])"
| "Contains (c # cs) sub = (HasPrefix (c # cs) sub \<or> Contains cs sub)"

text \<open>
  \<open>strings.ReplaceAll(s, old, new)\<close> for a non-empty \<open>old\<close>: the occurrences are found
  from the left and do not overlap. (The program only calls it with the non-empty
  constants \<open>$HOME\<close> and \<open>${HOME}\<close>; for an empty \<open>old\<close> the model returns \<open>s\<close>.)
\<close>

function ReplaceAll :: "string \<Rightarrow> string \<Rightarrow> string \<Rightarrow> string" where
  "ReplaceAll [] old new = []"
| "ReplaceAll (c # cs) old new =
     (if old \<noteq> [] \<and> HasPrefix (c # cs) old
      then new @ ReplaceAll (drop (length old) (c # cs)) old new
      else c # ReplaceAll cs old new)"
  by pat_completeness auto
termination
  by (relation "measure (\<lambda>(s, old, new). length s)") auto

text \<open>
  \<open>strings.Replace(s, old, new, 1)\<close>: only the leftmost occurrence is replaced. For an
  empty \<open>old\<close> Go inserts \<open>new\<close> in front of \<open>s\<close>, which the first equation of the
  non-empty case also yields since the empty string is a prefix of every string.
\<close>

fun Replace1 :: "string \<Rightarrow> string \<Rightarrow> string \<Rightarrow> string" where
  "Replace1 [] old new = (if old = [] then new else [])"
| "Replace1 (c # cs) old new =
     (if HasPrefix (c # cs) old then new @ drop (length old) (c # cs)
      else c # Replace1 cs old new)"

text \<open>
  \<open>strings.ToLower\<close> on the ASCII letters. Bytes above 127 are left alone: Go lowers
  the runes they encode, but no rune outside ASCII lowers to one of the letters
  \<open>y e s n o\<close>, so the comparisons of \<open>ConfirmAction\<close> come out the same.
\<close>

definition lowerChar :: "char \<Rightarrow> char" where
  "lowerChar c =
     (if (65::nat) \<le> of_char c \<and> of_char c \<le> (90::nat)
      then char_of (of_char c + (32::nat)) else c)"

definition ToLower :: "string \<Rightarrow> string" where
  "ToLower s = map lowerChar s"

text \<open>
  \<open>strings.TrimSpace\<close>: leading and trailing white space is removed, where white space
  is Unicode's White_Space property (\<open>unicode.IsSpace\<close>). The list holds the UTF-8
  encodings of those code points: tab, line feed, vertical tab, form feed, carriage
  return, space, U+0085, U+00A0, U+1680, U+2000 to U+200A, U+2028, U+2029, U+202F,
  U+205F and U+3000.
\<close>

definition spaces :: "string list" where
  "spaces =
     [[CHR 0x09], [CHR 0x0A], [CHR 0x0B], [CHR 0x0C], [CHR 0x0D], [CHR 0x20],
      [CHR 0xC2, CHR 0x85], [CHR 0xC2, CHR 0xA0],
      [CHR 0xE1, CHR 0x9A, CHR 0x80],
      [CHR 0xE2, CHR 0x80, CHR 0x80], [CHR 0xE2, CHR 0x80, CHR 0x81],
      [CHR 0xE2, CHR 0x80, CHR 0x82], [CHR 0xE2, CHR 0x80, CHR 0x83],
      [CHR 0xE2, CHR 0x80, CHR 0x84], [CHR 0xE2, CHR 0x80, CHR 0x85],
      [CHR 0xE2, CHR 0x80, CHR 0x86], [CHR 0xE2, CHR 0x80, CHR 0x87],
      [CHR 0xE2, CHR 0x80, CHR 0x88], [CHR 0xE2, CHR 0x80, CHR 0x89],
      [CHR 0xE2, CHR 0x80, CHR 0x8A],
      [CHR 0xE2, CHR 0x80, CHR 0xA8], [CHR 0xE2, CHR 0x80, CHR 0xA9],
      [CHR 0xE2, CHR 0x80, CHR 0xAF], [CHR 0xE2, CHR 0x81, CHR 0x9F],
      [CHR 0xE3, CHR 0x80, CHR 0x80]]"

text \<open>The white-space encoding a string starts with, if any.\<close>

definition leadingSpace :: "string list \<Rightarrow> string \<Rightarrow> string option" where
  "leadingSpace sps s = find (\<lambda>sp. HasPrefix s sp) sps"

function TrimLeft :: "string \<Rightarrow> string" where
  "TrimLeft s =
     (case leadingSpace spaces s of
        None \<Rightarrow> s
      | Some sp \<Rightarrow> if sp = [] \<or> length s < length sp then s
                  else TrimLeft (drop (length sp) s))"
  by pat_completeness auto
termination
  by (relation "measure length") (auto simp: neq_Nil_conv)

definition TrimRight :: "string \<Rightarrow> string" where
  "TrimRight s = rev (TrimLeft (rev s))"

definition TrimSpace :: "string \<Rightarrow> string" where
  "TrimSpace s = TrimRight (TrimLeft s)"

section \<open>Lexical path functions of \<open>path/filepath\<close> (Unix)\<close>

text \<open>
  The program runs on a POSIX hierarchy: the separator is \<open>/\<close> and there are no volume
  names. \<open>splitSep\<close> cuts a path at every separator; \<open>joinSep\<close> is its inverse.
\<close>

definition sep :: char where
  "sep = CHR ''/''"

fun splitSep :: "string \<Rightarrow> string list" where
  "splitSep [] = [[]]"
| "splitSep (c # cs) =
     (if c = sep then [] # splitSep cs
      else (case splitSep cs of [] \<Rightarrow> [[c]] | e # es \<Rightarrow> (c # e) # es))"

fun joinSep :: "string list \<Rightarrow> string" where
  "joinSep [] = []"
| "joinSep [e] = e"
| "joinSep (e # es) = e @ sep # joinSep es"

text \<open>
  The element loop of \<open>filepath.Clean\<close>. \<open>out\<close> is the output so far, last element
  first. Empty elements and \<open>.\<close> are dropped; \<open>..\<close> removes the element written last
  when there is one that is not itself \<open>..\<close>, is dropped at the root of a rooted path,
  and is kept in front of a relative one.
\<close>

fun cleanElems :: "bool \<Rightarrow> string list \<Rightarrow> string list \<Rightarrow> string list" where
  "cleanElems rooted [] out = out"
| "cleanElems rooted (e # es) out =
     (if e = [] \<or> e = ''.'' then cleanElems rooted es out
      else if e = ''..'' then
        (case out of
           [] \<Rightarrow> cleanElems rooted es (if rooted then [] else [''..''])
         | t # ts \<Rightarrow> if t = ''..'' then cleanElems rooted es (''..'' # out)
                     else cleanElems rooted es ts)
      else cleanElems rooted es (e # out))"

text \<open>\<open>filepath.Clean\<close>: the empty result is written as \<open>.\<close>.\<close>

definition Clean :: "string \<Rightarrow> string" where
  "Clean path =
     (if path = [] then ''.''
      else
        let rooted = (hd path = sep);
            out = (if rooted then [sep] else []) @
                  joinSep (rev (cleanElems rooted (splitSep path) []))
        in if out = [] then ''.'' else out)"

text \<open>\<open>filepath.IsAbs\<close> and \<open>filepath.Join\<close> of two elements: empty elements are
  ignored, the others are joined with a separator and cleaned.\<close>

definition IsAbs :: "string \<Rightarrow> bool" where
  "IsAbs path = HasPrefix path [sep]"

definition Join :: "string \<Rightarrow> string \<Rightarrow> string" where
  "Join a b =
     (if a \<noteq> [] then Clean (a @ sep # b)
      else if b \<noteq> [] then Clean b
      else [])"

section \<open>Errors\<close>

text \<open>
  Go's \<open>error\<close> values: the error of a failed system call, the sentinels
  \<open>filepath.SkipDir\<close> and \<open>filepath.SkipAll\<close>, \<open>fmt.Errorf\<close> without a cause (\<open>Msg\<close>)
  and with a wrapped cause (\<open>Wrap\<close>, the message in front of the \<open>%w\<close>), and a nil
  dereference (a panic, written as a value).
\<close>

datatype errno = ENOENT | EACCES | EIO

datatype error =
    PathError errno
  | SkipDir
  | SkipAll
  | Msg string
  | Wrap string error
  | NilDeref

section \<open>The file system as the program observes it\<close>

text \<open>
  \<open>os.FileInfo\<close>: \<open>Blocks\<close> is \<open>Some b\<close> when \<open>Sys()\<close> is a \<open>*syscall.Stat_t\<close> whose block
  count is \<open>b\<close>, and \<open>None\<close> when the type assertion fails; \<open>InfoSize\<close> is the logical
  length \<open>Size()\<close>.
\<close>

record FileInfo =
  IsDir :: bool
  Blocks :: "int64 option"
  InfoSize :: int64

text \<open>
  What \<open>lstat\<close> and \<open>readDirNames\<close> return at a path and below it: a file (anything that
  is not a directory), a directory with its names in the order of the walk, a directory
  whose names cannot be read, or a name on which \<open>lstat\<close> fails. The first two arguments
  are the block count (when \<open>Sys()\<close> provides one) and the logical length.
\<close>

datatype inode =
    File "int64 option" int64
  | Dir "int64 option" int64 "(string \<times> inode) list"
  | DirUnreadable "int64 option" int64 errno
  | NoStat errno

text \<open>The result of \<open>lstat\<close> on a node.\<close>

fun Info :: "inode \<Rightarrow> errno + FileInfo" where
  "Info (File b n) = Inr \<lparr>IsDir = False, Blocks = b, InfoSize = n\<rparr>"
| "Info (Dir b n names) = Inr \<lparr>IsDir = True, Blocks = b, InfoSize = n\<rparr>"
| "Info (DirUnreadable b n e) = Inr \<lparr>IsDir = True, Blocks = b, InfoSize = n\<rparr>"
| "Info (NoStat e) = Inl e"

text \<open>The file system: the node \<open>os.Lstat\<close> finds at every path.\<close>

type_synonym filesystem = "string \<Rightarrow> inode"

section \<open>\<open>filepath.Walk\<close>\<close>

text \<open>
  The callback receives the path, the file information (nil when \<open>lstat\<close> failed) and
  the error; it returns an error and the state it has updated (the variables it
  captures).
\<close>

type_synonym 's WalkFunc =
  "string \<Rightarrow> FileInfo option \<Rightarrow> error option \<Rightarrow> 's \<Rightarrow> error option \<times> 's"

text \<open>
  \<open>walk\<close> is the recursive function of the library, \<open>walkNames\<close> its loop over the names
  of a directory. \<open>walk\<close> is only called on a node whose \<open>lstat\<close> succeeded; the equation
  for \<open>NoStat\<close> is there for totality and does what the caller does in that case.
\<close>

fun walk :: "'s WalkFunc \<Rightarrow> string \<Rightarrow> inode \<Rightarrow> 's \<Rightarrow> error option \<times> 's"
  and walkNames ::
    "'s WalkFunc \<Rightarrow> string \<Rightarrow> (string \<times> inode) list \<Rightarrow> 's \<Rightarrow> error option \<times> 's"
  where
  "walk walkFn path (File b n) s =
     walkFn path (Some \<lparr>IsDir = False, Blocks = b, InfoSize = n\<rparr>) None s"
| "walk walkFn path (NoStat e) s = walkFn path None (Some (PathError e)) s"
| "walk walkFn path (DirUnreadable b n e) s =
     walkFn path (Some \<lparr>IsDir = True, Blocks = b, InfoSize = n\<rparr>) (Some (PathError e)) s"
| "walk walkFn path (Dir b n names) s =
     (case walkFn path (Some \<lparr>IsDir = True, Blocks = b, InfoSize = n\<rparr>) None s of
        (Some err1, s1) \<Rightarrow> (Some err1, s1)
      | (None, s1) \<Rightarrow> walkNames walkFn path names s1)"
| "walkNames walkFn path [] s = (None, s)"
| "walkNames walkFn path ((name, node) # rest) s =
     (case Info node of
        Inl e \<Rightarrow>
          (case walkFn (Join path name) None (Some (PathError e)) s of
             (Some err, s1) \<Rightarrow>
               if err \<noteq> SkipDir then (Some err, s1) else walkNames walkFn path rest s1
           | (None, s1) \<Rightarrow> walkNames walkFn path rest s1)
      | Inr fileInfo \<Rightarrow>
          (case walk walkFn (Join path name) node s of
             (Some err, s1) \<Rightarrow>
               if \<not> IsDir fileInfo \<or> err \<noteq> SkipDir then (Some err, s1)
               else walkNames walkFn path rest s1
           | (None, s1) \<Rightarrow> walkNames walkFn path rest s1))"

definition Walk :: "filesystem \<Rightarrow> string \<Rightarrow> 's WalkFunc \<Rightarrow> 's \<Rightarrow> error option \<times> 's" where
  "Walk fs root fn s =
     (case (case Info (fs root) of
              Inl e \<Rightarrow> fn root None (Some (PathError e)) s
            | Inr info \<Rightarrow> walk fn root (fs root) s) of
        (Some err, s1) \<Rightarrow> if err = SkipDir \<or> err = SkipAll then (None, s1) else (Some err, s1)
      | (None, s1) \<Rightarrow> (None, s1))"

section \<open>\<open>utils.GetFileSizeInBytes\<close> and \<open>utils.RemovePath\<close>\<close>

text \<open>The bytes a file occupies: 512 per block, or the logical length.\<close>

definition allocated :: "FileInfo \<Rightarrow> int64" where
  "allocated info = (case Blocks info of Some b \<Rightarrow> b * 512 | None \<Rightarrow> InfoSize info)"

text \<open>The callback of the walk; its state is the captured \<open>totalSize\<close>.\<close>

definition sizeWalkFn :: "int64 WalkFunc" where
  "sizeWalkFn subPath subInfo err totalSize =
     (case err of
        Some e \<Rightarrow> (Some SkipDir, totalSize)
      | None \<Rightarrow>
          (case subInfo of
             None \<Rightarrow> (Some NilDeref, totalSize)
           | Some info \<Rightarrow>
               if IsDir info then (None, totalSize + allocated info)
               else (None, totalSize + allocated info)))"

definition GetFileSizeInBytes :: "filesystem \<Rightarrow> string \<Rightarrow> error + int64" where
  "GetFileSizeInBytes fs path =
     (case Info (fs path) of
        Inl e \<Rightarrow>
          if e = ENOENT then Inr 0
          else Inl (Wrap (''failed to get info for '' @ path) (PathError e))
      | Inr info \<Rightarrow>
          if \<not> IsDir info then Inr (allocated info)
          else
            (case Walk fs path sizeWalkFn 0 of
               (Some err, totalSize) \<Rightarrow> Inl (Wrap (''failed to walk path '' @ path) err)
             | (None, totalSize) \<Rightarrow> Inr totalSize))"

text \<open>
  The state the engine runs in: the file system, the lines still to come on standard
  input, and two logs kept only to state which runs reach the deletion primitive and
  which reach a discovery: the paths \<open>RemovePath\<close> was called with, and the discoveries
  that were started.
\<close>

record world =
  FS :: filesystem
  Stdin :: "string list"
  RemoveCalls :: "string list"
  Discoveries :: "string list"

text \<open>
  \<open>RemovePath\<close>: the call of \<open>os.RemoveAll\<close> is commented out in the source, so the two
  branches differ in what they log only, and the file system of the returned state is
  the one it was given.
\<close>

definition RemovePath :: "string \<Rightarrow> bool \<Rightarrow> world \<Rightarrow> (error + int64) \<times> world" where
  "RemovePath path dryRun w =
     (let w1 = w\<lparr>RemoveCalls := RemoveCalls w @ [path]\<rparr> in
      case GetFileSizeInBytes (FS w1) path of
        Inl err \<Rightarrow> (Inl (Wrap (''could not get size of '' @ path @ '' before removal'') err), w1)
      | Inr sz \<Rightarrow> if dryRun then (Inr sz, w1) else (Inr sz, w1))"

section \<open>The ignore filter: \<open>utils.ExpandPath\<close> and \<open>utils.ContainsPath\<close>\<close>

text \<open>
  What the process reads from its environment: the variable \<open>HOME\<close> (empty when unset)
  and the working directory (\<open>None\<close> when \<open>os.Getwd\<close> fails).
\<close>

record env =
  HOME :: string
  Cwd :: "string option"

text \<open>\<open>os.UserHomeDir\<close> on Unix: \<open>$HOME\<close>, an error when it is empty.\<close>

definition UserHomeDir :: "env \<Rightarrow> error + string" where
  "UserHomeDir e = (if HOME e \<noteq> [] then Inr (HOME e) else Inl (Msg ''$HOME is not defined''))"

definition ExpandPath :: "env \<Rightarrow> string \<Rightarrow> string" where
  "ExpandPath e path =
     (if HasPrefix path ''~'' then
        (case UserHomeDir e of
           Inr homeDir \<Rightarrow> Join homeDir (drop 1 path)
         | Inl err \<Rightarrow> path)
      else if Contains path ''$HOME'' then
        (let homeDir = HOME e in
         if homeDir \<noteq> [] then ReplaceAll path ''$HOME'' homeDir else path)
      else if Contains path ''${HOME}'' then
        (let homeDir = HOME e in
         if homeDir \<noteq> [] then ReplaceAll path ''${HOME}'' homeDir else path)
      else path)"

text \<open>\<open>filepath.Abs\<close> on Unix.\<close>

definition Abs :: "env \<Rightarrow> string \<Rightarrow> error + string" where
  "Abs e path =
     (if IsAbs path then Inr (Clean path)
      else (case Cwd e of
              None \<Rightarrow> Inl (PathError ENOENT)
            | Some wd \<Rightarrow> Inr (Join wd path)))"

text \<open>The loop of \<open>ContainsPath\<close> over the ignore list.\<close>

fun containsLoop :: "env \<Rightarrow> string \<Rightarrow> string list \<Rightarrow> bool" where
  "containsLoop e absTargetPath [] = False"
| "containsLoop e absTargetPath (ignored # rest) =
     (let expandedIgnored = ExpandPath e ignored in
      case Abs e expandedIgnored of
        Inl err \<Rightarrow> containsLoop e absTargetPath rest
      | Inr absIgnoredPath \<Rightarrow>
          (let cleanTargetPath = Clean absTargetPath;
               cleanIgnoredPath = Clean absIgnoredPath
           in if cleanTargetPath = cleanIgnoredPath \<or>
                 HasPrefix cleanTargetPath (cleanIgnoredPath @ [sep])
              then True
              else containsLoop e absTargetPath rest))"

definition ContainsPath :: "env \<Rightarrow> string \<Rightarrow> string list \<Rightarrow> bool" where
  "ContainsPath e targetPath ignorePaths =
     (case Abs e targetPath of
        Inl err \<Rightarrow> False
      | Inr absTargetPath \<Rightarrow> containsLoop e absTargetPath ignorePaths)"

definition IsPathIgnored :: "env \<Rightarrow> string \<Rightarrow> string list \<Rightarrow> bool" where
  "IsPathIgnored e path ignorePaths = ContainsPath e path ignorePaths"

section \<open>The ledger: package \<open>reclaimer\<close>\<close>

text \<open>
  \<open>ReclaimedEntry\<close> has the fields \<open>Path\<close>, \<open>SizeReclaimed\<close>, \<open>WasRemoved\<close> and \<open>Category\<close>;
  the first and the last are written \<open>EntryPath\<close> and \<open>EntryCategory\<close> here, since
  \<open>cleanupItem\<close> has fields of the same names.
\<close>

record ReclaimedEntry =
  EntryPath :: string
  SizeReclaimed :: int64
  WasRemoved :: bool
  EntryCategory :: string

record SummaryTable =
  Entries :: "ReclaimedEntry list"

definition NewSummaryTable :: SummaryTable where
  "NewSummaryTable = \<lparr>Entries = []\<rparr>"

definition AddEntry :: "SummaryTable \<Rightarrow> string \<Rightarrow> int64 \<Rightarrow> bool \<Rightarrow> string \<Rightarrow> SummaryTable" where
  "AddEntry st path sizeReclaimed wasRemoved category =
     st\<lparr>Entries := Entries st @
          [\<lparr>EntryPath = path, SizeReclaimed = sizeReclaimed,
            WasRemoved = wasRemoved, EntryCategory = category\<rparr>]\<rparr>"

definition TotalReclaimedBytes :: "SummaryTable \<Rightarrow> int64" where
  "TotalReclaimedBytes st = foldl (\<lambda>total entry. total + SizeReclaimed entry) 0 (Entries st)"

text \<open>
  A Go \<open>map[string]int64\<close> under \<open>m[k] += v\<close>: a missing key reads as zero. The keys are
  kept in the order of their first insertion.
\<close>

fun addSize :: "string \<Rightarrow> int64 \<Rightarrow> (string \<times> int64) list \<Rightarrow> (string \<times> int64) list" where
  "addSize k v [] = [(k, 0 + v)]"
| "addSize k v ((k', t) # m) =
     (if k = k' then (k', t + v) # m else (k', t) # addSize k v m)"

definition lookupSize :: "(string \<times> int64) list \<Rightarrow> string \<Rightarrow> int64" where
  "lookupSize m k = (case map_of m k of None \<Rightarrow> 0 | Some v \<Rightarrow> v)"

text \<open>
  \<open>PrintTable\<close> renders a table on standard output; the model returns what is rendered:
  nothing for an empty ledger, else the rows (category and bytes, the categories sorted
  as \<open>sort.Strings\<close> sorts them) and the footer. The formatting of the byte counts by
  \<open>FormatBytes\<close> is left out.
\<close>

record Table =
  Title :: string
  Rows :: "(string \<times> int64) list"
  Footer :: int64

definition groupTotals :: "bool \<Rightarrow> ReclaimedEntry list \<Rightarrow> (string \<times> int64) list" where
  "groupTotals dryRun entries =
     (if dryRun then
        foldl (\<lambda>groupedTotals entry.
                 addSize (EntryCategory entry) (SizeReclaimed entry) groupedTotals) [] entries
      else
        foldl (\<lambda>groupedTotals entry.
                 if WasRemoved entry
                 then addSize (EntryCategory entry) (SizeReclaimed entry) groupedTotals
                 else groupedTotals) [] entries)"

definition PrintTable :: "SummaryTable \<Rightarrow> bool \<Rightarrow> string \<Rightarrow> Table option" where
  "PrintTable st dryRun title =
     (if length (Entries st) = 0 then None
      else
        let groupedTotals = groupTotals dryRun (Entries st);
            categories = sort (map fst groupedTotals)
        in Some \<lparr>Title = title,
                 Rows = map (\<lambda>category. (category, lookupSize groupedTotals category)) categories,
                 Footer = TotalReclaimedBytes st\<rparr>)"

section \<open>The execution policy: \<open>cleaner.processCleanupItems\<close>\<close>

record cleanupItem =
  Path :: string
  Size :: int64
  Category :: string
  ActualPath :: string

text \<open>
  \<open>ConfirmAction\<close> reads standard input line by line. \<open>Stdin\<close> holds the lines a terminal
  delivers, one for each read, and then the end of input: there \<open>ReadString\<close> returns the
  empty string with an error the source ignores, and the empty answer means no. The
  prompt is only printed and is not a parameter of the model.
\<close>

fun confirmLoop :: "string list \<Rightarrow> bool \<times> string list" where
  "confirmLoop [] = (False, [])"
| "confirmLoop (line # rest) =
     (let input = ToLower (TrimSpace line) in
      if input = ''y'' \<or> input = ''yes'' then (True, rest)
      else if input = ''n'' \<or> input = ''no'' \<or> input = [] then (False, rest)
      else confirmLoop rest)"

definition ConfirmAction :: "world \<Rightarrow> bool \<times> world" where
  "ConfirmAction w = (case confirmLoop (Stdin w) of (answer, rest) \<Rightarrow> (answer, w\<lparr>Stdin := rest\<rparr>))"

text \<open>
  Step 1 of \<open>processCleanupItems\<close>: the loop that fills the map \<open>aggregatedForTable\<close> and
  appends one entry for each item to the estimated ledger.
\<close>

fun aggregate ::
  "cleanupItem list \<Rightarrow> (string \<times> int64) list \<Rightarrow> SummaryTable \<Rightarrow>
   (string \<times> int64) list \<times> SummaryTable" where
  "aggregate [] aggregatedForTable estimatedSummary = (aggregatedForTable, estimatedSummary)"
| "aggregate (item # items) aggregatedForTable estimatedSummary =
     (let displayKey =
            (if Path item = ActualPath item \<and> Category item \<noteq> [] then Category item
             else Path item)
      in aggregate items
           (addSize displayKey (Size item) aggregatedForTable)
           (AddEntry estimatedSummary (ActualPath item) (Size item) False (Category item)))"

text \<open>
  \<open>tableItems\<close> holds one \<open>dryRunItem\<close> (a path and a size, a pair here) for each key of
  the map, in the order Go happens to range over it; the model takes the order of
  insertion. The two loops that add up the sizes of \<open>tableItems\<close> are \<open>sumTableItems\<close>.
\<close>

definition sumTableItems :: "(string \<times> int64) list \<Rightarrow> int64" where
  "sumTableItems tableItems = foldl (\<lambda>total item. total + snd item) 0 tableItems"

text \<open>
  The deletion loop of the application mode and of the confirmed batch (the source has
  the same loop twice): \<open>actualRemovedSize\<close> and the actual ledger are updated for each
  item, and an error of \<open>RemovePath\<close> does not end the loop.
\<close>

fun removeLoop ::
  "cleanupItem list \<Rightarrow> int64 \<Rightarrow> SummaryTable \<Rightarrow> world \<Rightarrow> int64 \<times> SummaryTable \<times> world" where
  "removeLoop [] actualRemovedSize summary w = (actualRemovedSize, summary, w)"
| "removeLoop (item # items) actualRemovedSize summary w =
     (case RemovePath (ActualPath item) False w of
        (Inl err, w1) \<Rightarrow>
          removeLoop items actualRemovedSize
            (AddEntry summary (ActualPath item) (Size item) False (Category item)) w1
      | (Inr reclaimed, w1) \<Rightarrow>
          removeLoop items (actualRemovedSize + reclaimed)
            (AddEntry summary (ActualPath item) reclaimed True (Category item)) w1)"

text \<open>The loop of the interactive mode: one confirmation for each item.\<close>

fun interactiveLoop ::
  "cleanupItem list \<Rightarrow> int64 \<Rightarrow> SummaryTable \<Rightarrow> world \<Rightarrow> int64 \<times> SummaryTable \<times> world" where
  "interactiveLoop [] actualRemovedSize summary w = (actualRemovedSize, summary, w)"
| "interactiveLoop (item # items) actualRemovedSize summary w =
     (case ConfirmAction w of
        (True, w1) \<Rightarrow>
          (case RemovePath (ActualPath item) False w1 of
             (Inl err, w2) \<Rightarrow>
               interactiveLoop items actualRemovedSize
                 (AddEntry summary (ActualPath item) (Size item) False (Category item)) w2
           | (Inr reclaimed, w2) \<Rightarrow>
               interactiveLoop items (actualRemovedSize + reclaimed)
                 (AddEntry summary (ActualPath item) reclaimed True (Category item)) w2)
      | (False, w1) \<Rightarrow>
          interactiveLoop items actualRemovedSize
            (AddEntry summary (ActualPath item) (Size item) False (Category item)) w1)"

text \<open>
  What a run returns and leaves behind: the pair \<open>(int64, error)\<close> of the Go function,
  the two ledgers behind the pointers \<open>summary\<close> and \<open>estimatedSummary\<close> (two distinct
  tables in every caller), and the state.
\<close>

record outcome =
  Reclaimed :: int64
  Err :: "error option"
  Summary :: SummaryTable
  Estimated :: SummaryTable
  World :: world

definition processCleanupItems ::
  "cleanupItem list \<Rightarrow> bool \<Rightarrow> bool \<Rightarrow> SummaryTable \<Rightarrow> SummaryTable \<Rightarrow> string \<Rightarrow> bool \<Rightarrow>
   world \<Rightarrow> outcome" where
  "processCleanupItems items dryRun interactive summary estimatedSummary tableTitle isApp w =
     (if length items = 0 then
        \<lparr>Reclaimed = 0, Err = None, Summary = summary, Estimated = estimatedSummary, World = w\<rparr>
      else
        case aggregate items [] estimatedSummary of
          (tableItems, estimated) \<Rightarrow>
            if dryRun then
              \<lparr>Reclaimed = sumTableItems tableItems, Err = None, Summary = summary,
               Estimated = estimated, World = w\<rparr>
            else if interactive then
              (case interactiveLoop items 0 summary w of
                 (actualRemovedSize, summary1, w1) \<Rightarrow>
                   \<lparr>Reclaimed = actualRemovedSize, Err = None, Summary = summary1,
                    Estimated = estimated, World = w1\<rparr>)
            else if isApp then
              (case removeLoop items 0 summary w of
                 (actualRemovedSize, summary1, w1) \<Rightarrow>
                   \<lparr>Reclaimed = actualRemovedSize, Err = None, Summary = summary1,
                    Estimated = estimated, World = w1\<rparr>)
            else
              (case ConfirmAction w of
                 (True, w1) \<Rightarrow>
                   (case removeLoop items 0 summary w1 of
                      (actualRemovedSize, summary1, w2) \<Rightarrow>
                        \<lparr>Reclaimed = actualRemovedSize, Err = None, Summary = summary1,
                         Estimated = estimated, World = w2\<rparr>)
               | (False, w1) \<Rightarrow>
                   \<lparr>Reclaimed = 0, Err = None, Summary = summary,
                    Estimated = estimated, World = w1\<rparr>))"

section \<open>The classifier: \<open>cleaner.categorizeLargeFilePath\<close>\<close>

definition categorizeLargeFilePath :: "env \<Rightarrow> string \<Rightarrow> string" where
  "categorizeLargeFilePath e path =
     (case UserHomeDir e of
        Inl err \<Rightarrow>
          if HasPrefix path ''/private/var'' \<or> HasPrefix path ''/tmp''
          then ''System Temporary Files''
          else ''Other Large Files''
      | Inr homeDir \<Rightarrow>
          let normalizedPath =
                (if HasPrefix path homeDir then Replace1 path homeDir ''~'' else path)
          in
          if Contains normalizedPath ''~/Library/Application Support/Google/Chrome'' \<or>
             Contains normalizedPath ''~/Library/Caches/Google/Chrome'' \<or>
             Contains normalizedPath ''~/Library/Application Support/BraveSoftware/Brave-Browser'' \<or>
             Contains normalizedPath ''~/Library/Caches/com.apple.Safari'' \<or>
             Contains normalizedPath ''~/Library/Application Support/Firefox''
          then ''Browser Caches''
          else if HasPrefix normalizedPath ''~/Downloads'' then ''User Downloads''
          else if HasPrefix normalizedPath ''~/Documents'' then ''User Documents''
          else if HasPrefix normalizedPath ''~/Library/Application Support''
            then ''Application Support Files''
          else if HasPrefix normalizedPath ''~/Library/Caches'' then ''User Caches''
          else if HasPrefix normalizedPath ''~/Library/Containers'' then ''User Container Data''
          else if HasPrefix normalizedPath ''~/Library/Group Containers''
            then ''User Group Container Data''
          else if HasPrefix normalizedPath ''~/Library/Messages/Attachments''
            then ''Messages Attachments''
          else if HasPrefix normalizedPath ''~/Library/Metadata/CoreSpotlight''
            then ''Spotlight Metadata''
          else if HasPrefix normalizedPath ''~/Library'' then ''Other User Library Files''
          else if HasPrefix path ''/private/var/folders'' \<or>
                  HasPrefix path ''/private/var/tmp'' \<or>
                  HasPrefix path ''/tmp''
            then ''System Temporary Files''
          else if Contains normalizedPath ''.rustup'' \<or>
                  Contains normalizedPath ''.npm'' \<or>
                  Contains normalizedPath ''.gradle'' \<or>
                  Contains normalizedPath ''Xcode/iOS DeviceSupport'' \<or>
                  Contains normalizedPath ''Android/Sdk'' \<or>
                  Contains normalizedPath ''JetBrains''
            then ''Developer Tool Caches/Data''
          else if HasPrefix normalizedPath ''~/'' then ''User Home Files''
          else if HasPrefix path ''/var'' \<or> HasPrefix path ''/usr'' \<or> HasPrefix path ''/opt''
            then ''System Files''
          else ''Other Large Files'')"

section \<open>The entry points and the command \<open>wipe\<close>\<close>

text \<open>
  The three discoveries (the walk for large files, the search for an application and
  its leftovers, the globs of the system targets) read the file system and produce the
  candidates. The properties below are about what happens before and after them, so
  they are parameters here: each maps its arguments and the state to the candidates it
  finds.
\<close>

record discovery =
  scanLargeFiles :: "string list \<Rightarrow> world \<Rightarrow> cleanupItem list"
  scanApplication :: "string \<Rightarrow> string list \<Rightarrow> world \<Rightarrow> cleanupItem list"
  scanSystem :: "string list \<Rightarrow> world \<Rightarrow> cleanupItem list"

definition TrimSuffix :: "string \<Rightarrow> string \<Rightarrow> string" where
  "TrimSuffix s suf = (if HasSuffix s suf then take (length s - length suf) s else s)"

definition CleanLargeFiles ::
  "discovery \<Rightarrow> bool \<Rightarrow> string list \<Rightarrow> SummaryTable \<Rightarrow> SummaryTable \<Rightarrow> bool \<Rightarrow> world \<Rightarrow> outcome"
  where
  "CleanLargeFiles d dryRun ignorePaths summary estimatedSummary interactive w =
     (let w0 = w\<lparr>Discoveries := Discoveries w @ [''large files'']\<rparr>;
          itemsToProcess = scanLargeFiles d ignorePaths w0;
          r = processCleanupItems itemsToProcess dryRun interactive summary estimatedSummary
                ''Detected Large Files'' False w0
      in case Err r of
           Some err \<Rightarrow>
             r\<lparr>Reclaimed := 0, Err := Some (Wrap ''failed to process large files cleanup'' err)\<rparr>
         | None \<Rightarrow> r)"

definition UninstallApplication ::
  "discovery \<Rightarrow> string \<Rightarrow> bool \<Rightarrow> string list \<Rightarrow> SummaryTable \<Rightarrow> SummaryTable \<Rightarrow> world \<Rightarrow> outcome"
  where
  "UninstallApplication d appName0 dryRun ignorePaths summary estimatedSummary w =
     (let appName = (if \<not> HasSuffix appName0 ''.app'' then appName0 @ ''.app'' else appName0);
          w0 = w\<lparr>Discoveries := Discoveries w @ [''application'']\<rparr>;
          itemsToProcess = scanApplication d appName ignorePaths w0
      in if length itemsToProcess = 0 then
           \<lparr>Reclaimed = 0, Err = None, Summary = summary, Estimated = estimatedSummary,
            World = w0\<rparr>
         else
           processCleanupItems itemsToProcess dryRun False summary estimatedSummary
             (''Application Cleanup for '' @ [CHR 0x27] @ TrimSuffix appName ''.app'' @ [CHR 0x27])
             True w0)"

definition CleanSystem ::
  "discovery \<Rightarrow> bool \<Rightarrow> string list \<Rightarrow> SummaryTable \<Rightarrow> SummaryTable \<Rightarrow> world \<Rightarrow> outcome" where
  "CleanSystem d dryRun ignorePaths summary estimatedSummary w =
     (let w0 = w\<lparr>Discoveries := Discoveries w @ [''system'']\<rparr>;
          itemsToProcess = scanSystem d ignorePaths w0;
          r = processCleanupItems itemsToProcess dryRun False summary estimatedSummary
                ''Folders that would be cleaned'' False w0
      in case Err r of
           Some err \<Rightarrow> r\<lparr>Reclaimed := 0, Err := Some (Wrap ''failed to process system cleanup'' err)\<rparr>
         | None \<Rightarrow> r)"

text \<open>
  \<open>wipeCmd.RunE\<close>: the error it returns, the outcome of the cleanup it ran (the two new
  ledgers and the unchanged state when it ran none) and the final table it printed.
  Cobra has checked before that there is at most one argument.
\<close>

record run =
  RunErr :: "error option"
  Out :: outcome
  Printed :: "Table option"

definition finish :: "string \<Rightarrow> outcome \<Rightarrow> run" where
  "finish msg r =
     (case Err r of
        Some err \<Rightarrow> \<lparr>RunErr = Some (Wrap msg err), Out = r, Printed = None\<rparr>
      | None \<Rightarrow>
          \<lparr>RunErr = None, Out = r,
           Printed = PrintTable (Summary r) False ''Reclaimed Disk Summary''\<rparr>)"

definition RunE ::
  "discovery \<Rightarrow> bool \<Rightarrow> string list \<Rightarrow> bool \<Rightarrow> bool \<Rightarrow> string list \<Rightarrow> world \<Rightarrow> run" where
  "RunE d dryRunFlag IgnorePaths largeFilesFlag interactiveFlag args w =
     (let summary = NewSummaryTable;
          estimatedSummary = NewSummaryTable;
          none = \<lparr>Reclaimed = 0, Err = None, Summary = summary,
                  Estimated = estimatedSummary, World = w\<rparr>
      in
      if largeFilesFlag then
        if length args > 0 then
          \<lparr>RunErr = Some (Msg ''the --large-files flag cannot be used with an application name''),
           Out = none, Printed = None\<rparr>
        else
          finish ''failed to clean large files''
            (CleanLargeFiles d dryRunFlag IgnorePaths summary estimatedSummary interactiveFlag w)
      else if length args = 1 then
        (let appName = hd args in
         case ConfirmAction w of
           (True, w1) \<Rightarrow>
             finish (''failed to uninstall '' @ appName)
               (UninstallApplication d appName dryRunFlag IgnorePaths summary estimatedSummary w1)
         | (False, w1) \<Rightarrow>
             \<lparr>RunErr = Some (Msg (''aborting uninstallation of '' @ appName)),
              Out = none\<lparr>World := w1\<rparr>, Printed = None\<rparr>)
      else
        finish ''failed to clean system''
          (CleanSystem d dryRunFlag IgnorePaths summary estimatedSummary w))"

section \<open>The properties, in the words of the specification\<close>

text \<open>
  The size of a subtree as the specification describes it: a file counts its
  allocation, a directory its own allocation and the sizes below it, and what cannot
  be read counts zero.
\<close>

fun diskUsage :: "inode \<Rightarrow> int64" where
  "diskUsage (File b n) = allocated \<lparr>IsDir = False, Blocks = b, InfoSize = n\<rparr>"
| "diskUsage (Dir b n names) =
     allocated \<lparr>IsDir = True, Blocks = b, InfoSize = n\<rparr> +
     sum_list (map (\<lambda>entry. diskUsage (snd entry)) names)"
| "diskUsage (DirUnreadable b n e) = 0"
| "diskUsage (NoStat e) = 0"

text \<open>
  The canonical form of a path (absolute and cleaned, when the working directory can
  be found), the elements of a path (what stands between its separators), and the
  relation between a path and an ancestor: the elements of the ancestor are the first
  elements of the path, which has more.
\<close>

definition canonical :: "env \<Rightarrow> string \<Rightarrow> string option" where
  "canonical e path = (case Abs e path of Inl err \<Rightarrow> None | Inr a \<Rightarrow> Some (Clean a))"

definition components :: "string \<Rightarrow> string list" where
  "components p = filter (\<lambda>x. x \<noteq> []) (splitSep p)"

definition descendant :: "string \<Rightarrow> string \<Rightarrow> bool" where
  "descendant t i =
     (length (components i) < length (components t) \<and>
      take (length (components i)) (components t) = components i)"

definition ignoredBy :: "env \<Rightarrow> string \<Rightarrow> string \<Rightarrow> bool" where
  "ignoredBy e target entry =
     (case (canonical e target, canonical e (ExpandPath e entry)) of
        (Some t, Some i) \<Rightarrow> t = i \<or> descendant t i
      | _ \<Rightarrow> False)"

text \<open>
  The ledger entry of the estimate, and the entry the interactive mode records for an
  item given the answer to its confirmation.
\<close>

definition estimateEntry :: "cleanupItem \<Rightarrow> ReclaimedEntry" where
  "estimateEntry item =
     \<lparr>EntryPath = ActualPath item, SizeReclaimed = Size item, WasRemoved = False,
      EntryCategory = Category item\<rparr>"

definition deletionEntry :: "filesystem \<Rightarrow> cleanupItem \<Rightarrow> bool \<Rightarrow> ReclaimedEntry" where
  "deletionEntry fs item accepted =
     (case (accepted, GetFileSizeInBytes fs (ActualPath item)) of
        (True, Inr freed) \<Rightarrow>
          \<lparr>EntryPath = ActualPath item, SizeReclaimed = freed, WasRemoved = True,
           EntryCategory = Category item\<rparr>
      | _ \<Rightarrow>
          \<lparr>EntryPath = ActualPath item, SizeReclaimed = Size item, WasRemoved = False,
           EntryCategory = Category item\<rparr>)"

text \<open>The answers of \<open>n\<close> confirmations in a row.\<close>

fun answers :: "nat \<Rightarrow> string list \<Rightarrow> bool list" where
  "answers 0 lines = []"
| "answers (Suc n) lines = (case confirmLoop lines of (a, rest) \<Rightarrow> a # answers n rest)"

text \<open>The bytes of the entries marked as removed.\<close>

definition removedBytes :: "ReclaimedEntry list \<Rightarrow> int64" where
  "removedBytes entries = sum_list (map SizeReclaimed (filter WasRemoved entries))"

text \<open>
  The classifier as an ordered table of rules: a predicate on the path and on its
  normalized form, and the category. The first rule that matches decides; when none
  does the category is the fallback.
\<close>

definition browserCacheRule :: "string \<Rightarrow> string \<Rightarrow> bool" where
  "browserCacheRule path normalizedPath =
     (Contains normalizedPath ''~/Library/Application Support/Google/Chrome'' \<or>
      Contains normalizedPath ''~/Library/Caches/Google/Chrome'' \<or>
      Contains normalizedPath ''~/Library/Application Support/BraveSoftware/Brave-Browser'' \<or>
      Contains normalizedPath ''~/Library/Caches/com.apple.Safari'' \<or>
      Contains normalizedPath ''~/Library/Application Support/Firefox'')"

definition rules :: "((string \<Rightarrow> string \<Rightarrow> bool) \<times> string) list" where
  "rules =
     [(browserCacheRule, ''Browser Caches''),
      (\<lambda>p n. HasPrefix n ''~/Downloads'', ''User Downloads''),
      (\<lambda>p n. HasPrefix n ''~/Documents'', ''User Documents''),
      (\<lambda>p n. HasPrefix n ''~/Library/Application Support'', ''Application Support Files''),
      (\<lambda>p n. HasPrefix n ''~/Library/Caches'', ''User Caches''),
      (\<lambda>p n. HasPrefix n ''~/Library/Containers'', ''User Container Data''),
      (\<lambda>p n. HasPrefix n ''~/Library/Group Containers'', ''User Group Container Data''),
      (\<lambda>p n. HasPrefix n ''~/Library/Messages/Attachments'', ''Messages Attachments''),
      (\<lambda>p n. HasPrefix n ''~/Library/Metadata/CoreSpotlight'', ''Spotlight Metadata''),
      (\<lambda>p n. HasPrefix n ''~/Library'', ''Other User Library Files''),
      (\<lambda>p n. HasPrefix p ''/private/var/folders'' \<or> HasPrefix p ''/private/var/tmp'' \<or>
              HasPrefix p ''/tmp'', ''System Temporary Files''),
      (\<lambda>p n. Contains n ''.rustup'' \<or> Contains n ''.npm'' \<or> Contains n ''.gradle'' \<or>
              Contains n ''Xcode/iOS DeviceSupport'' \<or> Contains n ''Android/Sdk'' \<or>
              Contains n ''JetBrains'', ''Developer Tool Caches/Data''),
      (\<lambda>p n. HasPrefix n ''~/'', ''User Home Files''),
      (\<lambda>p n. HasPrefix p ''/var'' \<or> HasPrefix p ''/usr'' \<or> HasPrefix p ''/opt'', ''System Files'')]"

fun firstMatch :: "((string \<Rightarrow> string \<Rightarrow> bool) \<times> string) list \<Rightarrow> string \<Rightarrow> string \<Rightarrow> string" where
  "firstMatch [] path normalizedPath = ''Other Large Files''"
| "firstMatch ((matches, category) # rest) path normalizedPath =
     (if matches path normalizedPath then category else firstMatch rest path normalizedPath)"

definition normalize :: "string \<Rightarrow> string \<Rightarrow> string" where
  "normalize homeDir path = (if HasPrefix path homeDir then ''~'' @ drop (length homeDir) path else path)"

section \<open>Example inputs\<close>

text \<open>
  Three files of 10, 20 and 30 bytes under \<open>/tmp\<close>, found by one target; a file system
  that holds them (without block counts, so that their size is their length); and the
  state in which a terminal delivers the given lines.
\<close>

definition threeFiles :: "cleanupItem list" where
  "threeFiles =
     [\<lparr>Path = ''/tmp'', Size = 10, Category = ''System Temporary Files'', ActualPath = ''/tmp/a''\<rparr>,
      \<lparr>Path = ''/tmp'', Size = 20, Category = ''System Temporary Files'', ActualPath = ''/tmp/b''\<rparr>,
      \<lparr>Path = ''/tmp'', Size = 30, Category = ''System Temporary Files'', ActualPath = ''/tmp/c''\<rparr>]"

definition tmpFS :: filesystem where
  "tmpFS =
     (\<lambda>p. if p = ''/tmp/a'' then File None 10
          else if p = ''/tmp/b'' then File None 20
          else if p = ''/tmp/c'' then File None 30
          else NoStat ENOENT)"

definition terminal :: "string list \<Rightarrow> world" where
  "terminal lines = \<lparr>FS = tmpFS, Stdin = lines, RemoveCalls = [], Discoveries = []\<rparr>"

definition fileA :: cleanupItem where
  "fileA = \<lparr>Path = ''/tmp'', Size = 10, Category = ''System Temporary Files'', ActualPath = ''/tmp/a''\<rparr>"

definition sampleTree :: inode where
  "sampleTree =
     Dir (Some 1) 64
       [(''a'', File (Some 2) 10),
        (''b'', NoStat EACCES),
        (''c'', DirUnreadable (Some 3) 5 EACCES),
        (''e'', Dir None 7 [(''f'', File None 100)])]"

definition sampleFS :: filesystem where
  "sampleFS =
     (\<lambda>p. if p = ''/d'' then sampleTree
          else if p = ''/f'' then File None 33
          else if p = ''/s'' then File (Some 8) 1
          else NoStat ENOENT)"

definition homeEnv :: env where
  "homeEnv = \<lparr>HOME = ''/Users/a'', Cwd = Some ''/tmp/w''\<rparr>"

definition noDiscovery :: discovery where
  "noDiscovery =
     \<lparr>scanLargeFiles = (\<lambda>ignorePaths w. []),
      scanApplication = (\<lambda>appName ignorePaths w. []),
      scanSystem = (\<lambda>ignorePaths w. [])\<rparr>"

definition realElem :: "string \<Rightarrow> bool" where
  "realElem x = (x \<noteq> [] \<and> x \<noteq> ''.'' \<and> x \<noteq> ''..'' \<and> sep \<notin> set x)"

section \<open>Sums and loops\<close>

lemma foldl_plus_sum_list:
  "foldl (\<lambda>total x. total + f x) a xs = a + sum_list (map f xs)" for a :: int64
  by (induction xs arbitrary: a) (simp_all add: add.assoc)

lemma sum_addSize:
  "sum_list (map snd (addSize k v m)) = sum_list (map snd m) + v"
  by (induction m) (auto simp: add.assoc add.commute add.left_commute)

lemma sumTableItems_eq: "sumTableItems m = sum_list (map snd m)"
  by (simp add: sumTableItems_def foldl_plus_sum_list)

lemma TotalReclaimedBytes_eq:
  "TotalReclaimedBytes st = sum_list (map SizeReclaimed (Entries st))"
  by (simp add: TotalReclaimedBytes_def foldl_plus_sum_list)

lemma aggregate_estimated:
  "snd (aggregate items agg est) = est\<lparr>Entries := Entries est @ map estimateEntry items\<rparr>"
  by (induction items arbitrary: agg est) (simp_all add: Let_def AddEntry_def estimateEntry_def)

lemma aggregate_sum:
  "sum_list (map snd (fst (aggregate items agg est))) =
   sum_list (map snd agg) + sum_list (map Size items)"
  by (induction items arbitrary: agg est) (simp_all add: Let_def sum_addSize add.assoc)

lemma RemovePath_result:
  "fst (RemovePath path dryRun w) =
     (case GetFileSizeInBytes (FS w) path of
        Inl err \<Rightarrow> Inl (Wrap (''could not get size of '' @ path @ '' before removal'') err)
      | Inr sz \<Rightarrow> Inr sz)"
  by (simp add: RemovePath_def Let_def split: sum.split)

lemma RemovePath_world:
  "snd (RemovePath path dryRun w) = w\<lparr>RemoveCalls := RemoveCalls w @ [path]\<rparr>"
  by (simp add: RemovePath_def Let_def split: sum.split)

lemma ConfirmAction_world:
  "snd (ConfirmAction w) = w\<lparr>Stdin := snd (confirmLoop (Stdin w))\<rparr>"
  "fst (ConfirmAction w) = fst (confirmLoop (Stdin w))"
  by (simp_all add: ConfirmAction_def split: prod.split)

lemma removeLoop_closed:
  "removeLoop items a s w =
     (a + removedBytes (map (\<lambda>item. deletionEntry (FS w) item True) items),
      s\<lparr>Entries := Entries s @ map (\<lambda>item. deletionEntry (FS w) item True) items\<rparr>,
      w\<lparr>RemoveCalls := RemoveCalls w @ map ActualPath items\<rparr>)"
proof (induction items arbitrary: a s w)
  case Nil
  show ?case by (simp add: removedBytes_def)
next
  case (Cons item items)
  obtain res w1 where rp: "RemovePath (ActualPath item) False w = (res, w1)"
    by (cases "RemovePath (ActualPath item) False w")
  have w1: "w1 = w\<lparr>RemoveCalls := RemoveCalls w @ [ActualPath item]\<rparr>"
    using RemovePath_world [of "ActualPath item" False w] rp by simp
  have res: "res = (case GetFileSizeInBytes (FS w) (ActualPath item) of
        Inl err \<Rightarrow> Inl (Wrap (''could not get size of '' @ ActualPath item @ '' before removal'') err)
      | Inr sz \<Rightarrow> Inr sz)"
    using RemovePath_result [of "ActualPath item" False w] rp by simp
  show ?case
  proof (cases "GetFileSizeInBytes (FS w) (ActualPath item)")
    case (Inl err)
    then show ?thesis
      using rp res w1 Cons.IH
      by (simp add: deletionEntry_def AddEntry_def removedBytes_def)
  next
    case (Inr sz)
    then show ?thesis
      using rp res w1 Cons.IH
      by (simp add: deletionEntry_def AddEntry_def removedBytes_def add.assoc)
  qed
qed


lemma interactiveLoop_step:
  "interactiveLoop (item # items) a s w =
     (let ans = fst (confirmLoop (Stdin w));
          e = deletionEntry (FS w) item ans
      in interactiveLoop items
           (a + (if WasRemoved e then SizeReclaimed e else 0))
           (s\<lparr>Entries := Entries s @ [e]\<rparr>)
           (w\<lparr>Stdin := snd (confirmLoop (Stdin w)),
              RemoveCalls := RemoveCalls w @ (if ans then [ActualPath item] else [])\<rparr>))"
proof -
  obtain ans rest where cl: "confirmLoop (Stdin w) = (ans, rest)"
    by (cases "confirmLoop (Stdin w)")
  then have ca: "ConfirmAction w = (ans, w\<lparr>Stdin := rest\<rparr>)"
    by (simp add: ConfirmAction_def)
  show ?thesis
  proof (cases ans)
    case False
    then show ?thesis
      using cl ca by (simp add: deletionEntry_def AddEntry_def Let_def)
  next
    case True
    let ?w1 = "w\<lparr>Stdin := rest\<rparr>"
    obtain res w2 where rp: "RemovePath (ActualPath item) False ?w1 = (res, w2)"
      by (cases "RemovePath (ActualPath item) False ?w1")
    have w2: "w2 = ?w1\<lparr>RemoveCalls := RemoveCalls ?w1 @ [ActualPath item]\<rparr>"
      using RemovePath_world [of "ActualPath item" False ?w1] rp by simp
    have res: "res = (case GetFileSizeInBytes (FS w) (ActualPath item) of
        Inl err \<Rightarrow> Inl (Wrap (''could not get size of '' @ ActualPath item @ '' before removal'') err)
      | Inr sz \<Rightarrow> Inr sz)"
      using RemovePath_result [of "ActualPath item" False ?w1] rp by simp
    show ?thesis
      using True cl ca rp res w2
      by (cases "GetFileSizeInBytes (FS w) (ActualPath item)")
         (simp_all add: deletionEntry_def AddEntry_def Let_def)
  qed
qed

lemma interactiveLoop_FS:
  "FS (snd (snd (interactiveLoop items a s w))) = FS w"
proof (induction items arbitrary: a s w)
  case Nil
  show ?case by simp
next
  case (Cons item items)
  show ?case
    by (simp only: interactiveLoop_step Let_def Cons.IH) simp
qed

lemma interactiveLoop_entries:
  "fst (snd (interactiveLoop items a s w)) =
     s\<lparr>Entries := Entries s @
          map2 (deletionEntry (FS w)) items (answers (length items) (Stdin w))\<rparr>"
proof (induction items arbitrary: a s w)
  case Nil
  show ?case by simp
next
  case (Cons item items)
  show ?case
    by (simp only: interactiveLoop_step Let_def Cons.IH)
       (simp split: prod.split)
qed

lemma interactiveLoop_total:
  "fst (interactiveLoop items a s w) =
     a + removedBytes (map2 (deletionEntry (FS w)) items (answers (length items) (Stdin w)))"
proof (induction items arbitrary: a s w)
  case Nil
  show ?case by (simp add: removedBytes_def)
next
  case (Cons item items)
  show ?case
    by (simp only: interactiveLoop_step Let_def Cons.IH)
       (simp add: removedBytes_def add.assoc split: prod.split)
qed



lemma aggregate_split:
  obtains tableItems where
    "aggregate items agg est =
       (tableItems, est\<lparr>Entries := Entries est @ map estimateEntry items\<rparr>)"
    and "sumTableItems tableItems = sumTableItems agg + sum_list (map Size items)"
  using aggregate_estimated [of items agg est] aggregate_sum [of items agg est]
  by (cases "aggregate items agg est") (simp add: sumTableItems_eq)

lemma processCleanupItems_Estimated:
  "Estimated (processCleanupItems items dryRun interactive summary est title isApp w) =
     est\<lparr>Entries := Entries est @ map estimateEntry items\<rparr>"
proof (cases "items = []")
  case True
  then show ?thesis by (simp add: processCleanupItems_def)
next
  case False
  obtain tableItems where agg: "aggregate items [] est =
     (tableItems, est\<lparr>Entries := Entries est @ map estimateEntry items\<rparr>)"
    by (rule aggregate_split)
  show ?thesis
    using False
    by (simp add: processCleanupItems_def agg split: prod.split bool.split)
qed

section \<open>Dry run\<close>

text \<open>
  Claim C2. A dry run returns the sum of the sizes of all candidates and no error,
  appends one entry for each candidate to the estimated ledger, and leaves the actual
  ledger and the whole state as they were: the file system is not changed and
  \<open>RemovePath\<close> is not called.
\<close>

theorem dry_run_estimates_only:
  "processCleanupItems items True interactive summary estimatedSummary tableTitle isApp w =
     \<lparr>Reclaimed = sum_list (map Size items), Err = None, Summary = summary,
      Estimated = estimatedSummary\<lparr>Entries := Entries estimatedSummary @ map estimateEntry items\<rparr>,
      World = w\<rparr>"
proof (cases "items = []")
  case True
  then show ?thesis by (simp add: processCleanupItems_def)
next
  case False
  obtain tableItems where agg: "aggregate items [] estimatedSummary =
     (tableItems,
      estimatedSummary\<lparr>Entries := Entries estimatedSummary @ map estimateEntry items\<rparr>)"
    and total: "sumTableItems tableItems = sumTableItems [] + sum_list (map Size items)"
    by (rule aggregate_split)
  show ?thesis
    using False total
    by (simp add: processCleanupItems_def agg sumTableItems_def)
qed

lemma confirm_n: "confirmLoop [''n''] = (False, [])"
  by code_simp

theorem dry_run_estimates_only_witness:
  "Reclaimed (processCleanupItems threeFiles True False NewSummaryTable NewSummaryTable
      ''Folders that would be cleaned'' False (terminal [])) = 60 \<and>
   World (processCleanupItems threeFiles True False NewSummaryTable NewSummaryTable
      ''Folders that would be cleaned'' False (terminal [])) = terminal []"
  by (simp add: dry_run_estimates_only) (simp add: threeFiles_def)

section \<open>The estimated ledger\<close>

text \<open>
  Claim C3. In every mode and whatever the confirmations and deletions do, the
  estimated ledger after the run is the one before it followed by one entry for each
  candidate, so its total has grown by the sum of the candidates' sizes; from an empty
  ledger the total is that sum.
\<close>

theorem estimated_ledger_holds_every_candidate:
  "Estimated (processCleanupItems items dryRun interactive summary est title isApp w) =
     est\<lparr>Entries := Entries est @ map estimateEntry items\<rparr> \<and>
   TotalReclaimedBytes
     (Estimated (processCleanupItems items dryRun interactive summary est title isApp w)) =
     TotalReclaimedBytes est + sum_list (map Size items) \<and>
   TotalReclaimedBytes
     (Estimated (processCleanupItems items dryRun interactive summary NewSummaryTable title isApp w)) =
     sum_list (map Size items)"
  by (simp add: processCleanupItems_Estimated TotalReclaimedBytes_eq estimateEntry_def
      NewSummaryTable_def comp_def)

theorem estimated_ledger_holds_every_candidate_witness:
  "TotalReclaimedBytes
     (Estimated (processCleanupItems threeFiles False False NewSummaryTable NewSummaryTable
        ''Folders that would be cleaned'' False (terminal [''n'']))) = 60"
proof -
  have "TotalReclaimedBytes
     (Estimated (processCleanupItems threeFiles False False NewSummaryTable NewSummaryTable
        ''Folders that would be cleaned'' False (terminal [''n'']))) =
     sum_list (map Size threeFiles)"
    using estimated_ledger_holds_every_candidate [of threeFiles False False NewSummaryTable
      NewSummaryTable "''Folders that would be cleaned''" False "terminal [''n'']"]
    by blast
  then show ?thesis by (simp add: threeFiles_def)
qed

section \<open>A declined batch\<close>

text \<open>
  Claim C6. In the default batch mode (no dry run, not interactive, not an application),
  when the confirmation is declined the run returns 0 bytes and no error, leaves the
  actual ledger as it was, never calls \<open>RemovePath\<close> and does not change the file system.
\<close>

theorem declined_batch_deletes_nothing:
  assumes "\<not> dryRun" and "\<not> interactive" and "\<not> isApp" and "fst (ConfirmAction w) = False"
  shows "Reclaimed (processCleanupItems items dryRun interactive summary est title isApp w) = 0 \<and>
         Err (processCleanupItems items dryRun interactive summary est title isApp w) = None \<and>
         Summary (processCleanupItems items dryRun interactive summary est title isApp w) = summary \<and>
         RemoveCalls (World (processCleanupItems items dryRun interactive summary est title isApp w)) =
           RemoveCalls w \<and>
         FS (World (processCleanupItems items dryRun interactive summary est title isApp w)) = FS w"
proof (cases "items = []")
  case True
  then show ?thesis by (simp add: processCleanupItems_def)
next
  case False
  obtain w1 where ca: "ConfirmAction w = (False, w1)"
    using assms(4) by (cases "ConfirmAction w") simp
  have w1: "w1 = w\<lparr>Stdin := snd (confirmLoop (Stdin w))\<rparr>"
    using ConfirmAction_world(1) [of w] ca by simp
  obtain tableItems where agg: "aggregate items [] est =
     (tableItems, est\<lparr>Entries := Entries est @ map estimateEntry items\<rparr>)"
    by (rule aggregate_split)
  show ?thesis
    using False assms(1-3) ca w1
    by (simp add: processCleanupItems_def agg)
qed


theorem declined_batch_deletes_nothing_witness:
  "Reclaimed (processCleanupItems threeFiles False False NewSummaryTable NewSummaryTable
      ''Folders that would be cleaned'' False (terminal [''n''])) = 0 \<and>
   Summary (processCleanupItems threeFiles False False NewSummaryTable NewSummaryTable
      ''Folders that would be cleaned'' False (terminal [''n''])) = NewSummaryTable"
proof -
  have "fst (ConfirmAction (terminal [''n''])) = False"
    by (simp add: ConfirmAction_world terminal_def confirm_n del: confirmLoop.simps)
  from declined_batch_deletes_nothing [OF _ _ _ this, of False False False threeFiles
      NewSummaryTable NewSummaryTable "''Folders that would be cleaned''"]
  show ?thesis by simp
qed

section \<open>The deletion primitive\<close>

lemma removeLoop_FS: "FS (snd (snd (removeLoop items a s w))) = FS w"
  by (simp add: removeLoop_closed)

lemma processCleanupItems_FS:
  "FS (World (processCleanupItems items dryRun interactive summary est title isApp w)) = FS w"
proof (cases "items = []")
  case True
  then show ?thesis by (simp add: processCleanupItems_def)
next
  case False
  obtain tableItems where agg: "aggregate items [] est =
     (tableItems, est\<lparr>Entries := Entries est @ map estimateEntry items\<rparr>)"
    by (rule aggregate_split)
  obtain a1 s1 w1 where il: "interactiveLoop items 0 summary w = (a1, s1, w1)"
    by (cases "interactiveLoop items 0 summary w")
  have w1: "FS w1 = FS w"
    using interactiveLoop_FS [of items 0 summary w] il by simp
  obtain ans w2 where ca: "ConfirmAction w = (ans, w2)"
    by (cases "ConfirmAction w")
  have w2: "w2 = w\<lparr>Stdin := snd (confirmLoop (Stdin w))\<rparr>"
    using ConfirmAction_world(1) [of w] ca by simp
  show ?thesis
    using False il w1 ca w2
    by (cases ans) (simp_all add: processCleanupItems_def agg removeLoop_closed)
qed

text \<open>
  Claim C1. \<open>RemovePath\<close> leaves the file system as it found it, in a dry run or not, and
  returns the size of the path whenever the size can be computed; so every run of
  \<open>processCleanupItems\<close>, in any mode, ends in the file system it started in. In
  particular a run that records an entry with \<open>removed = true\<close> for an item leaves that
  item's path exactly as it was: the flag does not mean the path is gone.
\<close>

theorem removal_leaves_file_system:
  "FS (snd (RemovePath path dryRun w)) = FS w \<and>
   (GetFileSizeInBytes (FS w) path = Inr sz \<longrightarrow> fst (RemovePath path dryRun w) = Inr sz) \<and>
   FS (World (processCleanupItems items dryRun interactive summary est title isApp w)) = FS w \<and>
   (GetFileSizeInBytes (FS w) (ActualPath item) = Inr sz \<longrightarrow>
      Entries (Summary (processCleanupItems [item] False False summary est title True w)) =
        Entries summary @
          [\<lparr>EntryPath = ActualPath item, SizeReclaimed = sz, WasRemoved = True,
            EntryCategory = Category item\<rparr>] \<and>
      FS (World (processCleanupItems [item] False False summary est title True w)) (ActualPath item) =
        FS w (ActualPath item))"
proof -
  have a: "FS (snd (RemovePath path dryRun w)) = FS w"
    by (simp add: RemovePath_world)
  have b: "GetFileSizeInBytes (FS w) path = Inr sz \<longrightarrow> fst (RemovePath path dryRun w) = Inr sz"
    by (simp add: RemovePath_result)
  have c: "FS (World (processCleanupItems items dryRun interactive summary est title isApp w)) = FS w"
    by (rule processCleanupItems_FS)
  have d: "GetFileSizeInBytes (FS w) (ActualPath item) = Inr sz \<longrightarrow>
      Entries (Summary (processCleanupItems [item] False False summary est title True w)) =
        Entries summary @
          [\<lparr>EntryPath = ActualPath item, SizeReclaimed = sz, WasRemoved = True,
            EntryCategory = Category item\<rparr>]"
    by (simp add: processCleanupItems_def removeLoop_closed deletionEntry_def Let_def AddEntry_def)
  have e: "FS (World (processCleanupItems [item] False False summary est title True w)) (ActualPath item) =
        FS w (ActualPath item)"
    by (simp add: processCleanupItems_FS)
  from a b c d e show ?thesis by blast
qed

lemma size_tmp_a: "GetFileSizeInBytes tmpFS ''/tmp/a'' = Inr 10"
  by (simp add: tmpFS_def GetFileSizeInBytes_def allocated_def)

theorem removal_leaves_file_system_witness:
  "GetFileSizeInBytes (FS (terminal [])) (ActualPath fileA) = Inr 10 \<and>
   fst (RemovePath ''/tmp/a'' False (terminal [])) = Inr 10 \<and>
   Entries (Summary (processCleanupItems [fileA] False False NewSummaryTable NewSummaryTable
      ''Application Cleanup'' True (terminal []))) =
     [\<lparr>EntryPath = ''/tmp/a'', SizeReclaimed = 10, WasRemoved = True,
       EntryCategory = ''System Temporary Files''\<rparr>] \<and>
   FS (World (processCleanupItems [fileA] False False NewSummaryTable NewSummaryTable
      ''Application Cleanup'' True (terminal []))) ''/tmp/a'' = File None 10"
proof -
  have g: "GetFileSizeInBytes (FS (terminal [])) (ActualPath fileA) = Inr 10"
    by (simp add: terminal_def fileA_def size_tmp_a)
  have g2: "GetFileSizeInBytes (FS (terminal [])) ''/tmp/a'' = Inr 10"
    by (simp add: terminal_def size_tmp_a)
  have at: "FS (terminal []) ''/tmp/a'' = File None 10"
    by (simp add: terminal_def tmpFS_def)
  have p: "ActualPath fileA = ''/tmp/a''" "Category fileA = ''System Temporary Files''"
    by (simp_all add: fileA_def)
  from removal_leaves_file_system [where path = "''/tmp/a''" and dryRun = False
      and w = "terminal []" and sz = 10 and items = "[]" and interactive = False
      and summary = NewSummaryTable and est = NewSummaryTable
      and title = "''Application Cleanup''" and isApp = True and item = fileA] g g2 at p
  show ?thesis by (simp add: NewSummaryTable_def)
qed

section \<open>The interactive mode\<close>



lemma answers_y_n: "answers (Suc (Suc (Suc 0))) [''y'', ''n''] = [True, False, False]"
  by code_simp

lemma sizes_tmp: "GetFileSizeInBytes tmpFS ''/tmp/b'' = Inr 20" "GetFileSizeInBytes tmpFS ''/tmp/c'' = Inr 30"
  by (simp_all add: tmpFS_def GetFileSizeInBytes_def allocated_def)


section \<open>The size calculator\<close>

text \<open>
  The walk with the size callback adds the size of the subtree to \<open>totalSize\<close>. It
  returns \<open>SkipDir\<close> exactly for a node that cannot be read, and the loop over the names
  of a directory passes over that.
\<close>

lemma walk_sizeWalkFn_aux:
  "walkFn = sizeWalkFn \<Longrightarrow>
   walk walkFn path node s =
     ((case node of File b n \<Rightarrow> None | Dir b n names \<Rightarrow> None | _ \<Rightarrow> Some SkipDir),
      s + diskUsage node)"
  "walkFn = sizeWalkFn \<Longrightarrow>
   walkNames walkFn path names s =
     (None, s + sum_list (map (\<lambda>entry. diskUsage (snd entry)) names))"
proof (induction walkFn path node s and walkFn path names s rule: walk_walkNames.induct)
  case (1 walkFn path b n s)
  then show ?case by (simp add: sizeWalkFn_def)
next
  case (2 walkFn path e s)
  then show ?case by (simp add: sizeWalkFn_def)
next
  case (3 walkFn path b n e s)
  then show ?case by (simp add: sizeWalkFn_def)
next
  case (4 walkFn path b n names s)
  have cb: "walkFn path (Some \<lparr>IsDir = True, Blocks = b, InfoSize = n\<rparr>) None s =
            (None, s + allocated \<lparr>IsDir = True, Blocks = b, InfoSize = n\<rparr>)"
    using "4.prems" by (simp add: sizeWalkFn_def)
  show ?case
    using "4.IH" [OF cb [symmetric] refl "4.prems"] cb by (simp add: add.assoc)
next
  case (5 walkFn path s)
  show ?case by simp
next
  case (6 walkFn path name node rest s)
  show ?case
  proof (cases node)
    case (File b n)
    then show ?thesis using 6 by (simp add: sizeWalkFn_def add.assoc)
  next
    case (Dir b n names)
    then show ?thesis using 6 by (simp add: sizeWalkFn_def add.assoc)
  next
    case (DirUnreadable b n e)
    then show ?thesis using 6 by (simp add: sizeWalkFn_def)
  next
    case (NoStat e)
    then show ?thesis using 6 by (simp add: sizeWalkFn_def)
  qed
qed

lemmas walk_sizeWalkFn = walk_sizeWalkFn_aux [OF refl]

lemma size_of_directory:
  "fs path = Dir b n names \<Longrightarrow>
     GetFileSizeInBytes fs path =
       Inr (allocated \<lparr>IsDir = True, Blocks = b, InfoSize = n\<rparr> +
            sum_list (map (\<lambda>entry. diskUsage (snd entry)) names))"
  by (simp add: GetFileSizeInBytes_def Walk_def walk_sizeWalkFn del: walk.simps)

lemma size_of_unreadable_directory:
  "fs path = DirUnreadable b n e \<Longrightarrow> GetFileSizeInBytes fs path = Inr 0"
  by (simp add: GetFileSizeInBytes_def Walk_def walk_sizeWalkFn del: walk.simps)

text \<open>
  Claim C8. \<open>GetFileSizeInBytes\<close> returns 0 and no error for a path that does not exist;
  for a file the blocks it occupies times 512 when the block count is available and the
  logical length otherwise; for a directory the allocation of the directory plus the
  sizes of everything below it, where an entry that cannot be read (a name on which
  \<open>lstat\<close> fails, a directory whose names cannot be listed) counts zero and does not
  make the call fail. A directory that cannot be listed itself has size 0.
\<close>

theorem size_of_path:
  "(fs path = NoStat ENOENT \<longrightarrow> GetFileSizeInBytes fs path = Inr 0) \<and>
   (fs path = File (Some blocks) n \<longrightarrow> GetFileSizeInBytes fs path = Inr (blocks * 512)) \<and>
   (fs path = File None n \<longrightarrow> GetFileSizeInBytes fs path = Inr n) \<and>
   (fs path = Dir b n names \<longrightarrow>
      GetFileSizeInBytes fs path =
        Inr (allocated \<lparr>IsDir = True, Blocks = b, InfoSize = n\<rparr> +
             sum_list (map (\<lambda>entry. diskUsage (snd entry)) names))) \<and>
   (fs path = DirUnreadable b n e \<longrightarrow> GetFileSizeInBytes fs path = Inr 0)"
proof -
  have missing: "fs path = NoStat ENOENT \<longrightarrow> GetFileSizeInBytes fs path = Inr 0"
    by (simp add: GetFileSizeInBytes_def)
  have blocks: "fs path = File (Some blocks) n \<longrightarrow>
      GetFileSizeInBytes fs path = Inr (blocks * 512)"
    by (simp add: GetFileSizeInBytes_def allocated_def)
  have logical: "fs path = File None n \<longrightarrow> GetFileSizeInBytes fs path = Inr n"
    by (simp add: GetFileSizeInBytes_def allocated_def)
  from missing blocks logical size_of_directory [of fs path b n names]
    size_of_unreadable_directory [of fs path b n e]
  show ?thesis by blast
qed

lemma diskUsage_sampleTree: "diskUsage sampleTree = 1643"
  by (simp add: sampleTree_def allocated_def)

theorem size_of_path_witness:
  "sampleFS ''/nothing'' = NoStat ENOENT \<and> GetFileSizeInBytes sampleFS ''/nothing'' = Inr 0 \<and>
   sampleFS ''/s'' = File (Some 8) 1 \<and> GetFileSizeInBytes sampleFS ''/s'' = Inr 4096 \<and>
   sampleFS ''/f'' = File None 33 \<and> GetFileSizeInBytes sampleFS ''/f'' = Inr 33 \<and>
   GetFileSizeInBytes sampleFS ''/d'' = Inr 1643"
proof -
  have d: "sampleFS ''/d'' =
     Dir (Some 1) 64
       [(''a'', File (Some 2) 10),
        (''b'', NoStat EACCES),
        (''c'', DirUnreadable (Some 3) 5 EACCES),
        (''e'', Dir None 7 [(''f'', File None 100)])]"
    by (simp add: sampleFS_def sampleTree_def)
  have n: "sampleFS ''/nothing'' = NoStat ENOENT" by (simp add: sampleFS_def)
  have s: "sampleFS ''/s'' = File (Some 8) 1" by (simp add: sampleFS_def)
  have f: "sampleFS ''/f'' = File None 33" by (simp add: sampleFS_def)
  have "GetFileSizeInBytes sampleFS ''/nothing'' = Inr 0"
    using size_of_path [of sampleFS "''/nothing''"] n by simp
  moreover have "GetFileSizeInBytes sampleFS ''/s'' = Inr 4096"
    using size_of_path [of sampleFS "''/s''" 8 1] s by simp
  moreover have "GetFileSizeInBytes sampleFS ''/f'' = Inr 33"
    using size_of_path [of sampleFS "''/f''" _ 33] f by simp
  moreover have "GetFileSizeInBytes sampleFS ''/d'' = Inr 1643"
    using size_of_path [of sampleFS "''/d''" _ 64 "Some 1"] d by (simp add: allocated_def)
  ultimately show ?thesis using n s f by simp
qed

section \<open>The classifier\<close>

text \<open>
  The cascade of the source and the ordered table give the same category. Without a
  home directory the source only tells the system temporary files from the rest.
\<close>

lemma Replace1_prefix:
  "HasPrefix path homeDir \<Longrightarrow> Replace1 path homeDir new = new @ drop (length homeDir) path"
  by (cases path) (auto simp: HasPrefix_def)

lemma normalize_eq:
  "(if HasPrefix path homeDir then Replace1 path homeDir ''~'' else path) = normalize homeDir path"
  by (simp add: normalize_def Replace1_prefix)

lemma categorize_first_match:
  "UserHomeDir e = Inr homeDir \<Longrightarrow>
     categorizeLargeFilePath e path = firstMatch rules path (normalize homeDir path)"
  unfolding categorizeLargeFilePath_def
  by (simp only: sum.case Let_def normalize_eq rules_def firstMatch.simps browserCacheRule_def
      if_True if_False split: if_split)

text \<open>
  Claim C9. When the home directory is known, the category of a path is that of the
  first rule of the ordered table that matches it, and the fallback when none does.
  The rule of the browser caches is the first of the table: a path that matches it is
  reported as \<open>Browser Caches\<close> whatever later rule it matches as well.
\<close>

theorem classifier_first_match_wins:
  assumes "UserHomeDir e = Inr homeDir"
  shows "categorizeLargeFilePath e path = firstMatch rules path (normalize homeDir path) \<and>
         (browserCacheRule path (normalize homeDir path) \<longrightarrow>
            categorizeLargeFilePath e path = ''Browser Caches'') \<and>
         fst (hd rules) = browserCacheRule"
proof -
  have fm: "categorizeLargeFilePath e path = firstMatch rules path (normalize homeDir path)"
    using assms by (rule categorize_first_match)
  have first: "fst (hd rules) = browserCacheRule"
    by (simp add: rules_def)
  have "browserCacheRule path (normalize homeDir path) \<longrightarrow>
          firstMatch rules path (normalize homeDir path) = ''Browser Caches''"
    by (simp add: rules_def)
  with fm first show ?thesis by simp
qed

lemma chrome_cache_matches:
  "browserCacheRule ''/Users/a/Library/Caches/Google/Chrome/Default/Cache/data_1''
     (normalize ''/Users/a'' ''/Users/a/Library/Caches/Google/Chrome/Default/Cache/data_1'')"
  by code_simp

lemma chrome_cache_generic:
  "HasPrefix (normalize ''/Users/a'' ''/Users/a/Library/Caches/Google/Chrome/Default/Cache/data_1'')
     ''~/Library/Caches'' \<and>
   HasPrefix (normalize ''/Users/a'' ''/Users/a/Library/Caches/Google/Chrome/Default/Cache/data_1'')
     ''~/Library'' \<and>
   HasPrefix (normalize ''/Users/a'' ''/Users/a/Library/Caches/Google/Chrome/Default/Cache/data_1'')
     ''~/''"
  by code_simp

theorem classifier_first_match_wins_witness:
  "UserHomeDir homeEnv = Inr ''/Users/a'' \<and>
   browserCacheRule ''/Users/a/Library/Caches/Google/Chrome/Default/Cache/data_1''
     (normalize ''/Users/a'' ''/Users/a/Library/Caches/Google/Chrome/Default/Cache/data_1'') \<and>
   HasPrefix (normalize ''/Users/a'' ''/Users/a/Library/Caches/Google/Chrome/Default/Cache/data_1'')
     ''~/Library/Caches'' \<and>
   categorizeLargeFilePath homeEnv ''/Users/a/Library/Caches/Google/Chrome/Default/Cache/data_1'' =
     ''Browser Caches''"
proof -
  have h: "UserHomeDir homeEnv = Inr ''/Users/a''"
    by (simp add: UserHomeDir_def homeEnv_def)
  from classifier_first_match_wins [OF h,
      of "''/Users/a/Library/Caches/Google/Chrome/Default/Cache/data_1''"]
    chrome_cache_matches chrome_cache_generic h
  show ?thesis by blast
qed

lemma categorize_without_home:
  "UserHomeDir e = Inl err \<Longrightarrow>
     categorizeLargeFilePath e path =
       (if HasPrefix path ''/private/var'' \<or> HasPrefix path ''/tmp''
        then ''System Temporary Files'' else ''Other Large Files'')"
  by (simp add: categorizeLargeFilePath_def)

section \<open>Conflicting modes\<close>

lemma finish_no_conflict:
  "RunErr (finish msg r) \<noteq>
     Some (Msg ''the --large-files flag cannot be used with an application name'')"
  by (simp add: finish_def split: option.split)

text \<open>
  Claim C10. The command returns the validation error exactly when the large-files flag
  comes with an application name. It then returns at once: the result is the same
  whatever the discoveries are, no discovery is started, nothing is read from standard
  input and the state is the one the command was given.
\<close>

theorem conflicting_flags_rejected_first:
  "(RunErr (RunE d dryRunFlag IgnorePaths largeFilesFlag interactiveFlag args w) =
      Some (Msg ''the --large-files flag cannot be used with an application name'')
    \<longleftrightarrow> largeFilesFlag \<and> args \<noteq> []) \<and>
   (largeFilesFlag \<and> args \<noteq> [] \<longrightarrow>
      RunE d dryRunFlag IgnorePaths largeFilesFlag interactiveFlag args w =
        \<lparr>RunErr = Some (Msg ''the --large-files flag cannot be used with an application name''),
         Out = \<lparr>Reclaimed = 0, Err = None, Summary = NewSummaryTable,
                Estimated = NewSummaryTable, World = w\<rparr>,
         Printed = None\<rparr>)"
proof -
  have rejected: "largeFilesFlag \<and> args \<noteq> [] \<longrightarrow>
      RunE d dryRunFlag IgnorePaths largeFilesFlag interactiveFlag args w =
        \<lparr>RunErr = Some (Msg ''the --large-files flag cannot be used with an application name''),
         Out = \<lparr>Reclaimed = 0, Err = None, Summary = NewSummaryTable,
                Estimated = NewSummaryTable, World = w\<rparr>,
         Printed = None\<rparr>"
    by (simp add: RunE_def Let_def)
  have large: "largeFilesFlag \<Longrightarrow> args = [] \<Longrightarrow>
      RunErr (RunE d dryRunFlag IgnorePaths largeFilesFlag interactiveFlag args w) \<noteq>
        Some (Msg ''the --large-files flag cannot be used with an application name'')"
    by (simp add: RunE_def Let_def finish_no_conflict)
  have other: "\<not> largeFilesFlag \<Longrightarrow>
      RunErr (RunE d dryRunFlag IgnorePaths largeFilesFlag interactiveFlag args w) \<noteq>
        Some (Msg ''the --large-files flag cannot be used with an application name'')"
    by (simp add: RunE_def Let_def finish_no_conflict split: prod.split bool.split)
  from rejected large other show ?thesis
    by (cases largeFilesFlag; cases "args = []") auto
qed

theorem conflicting_flags_rejected_first_witness:
  "RunErr (RunE noDiscovery False [] True False [''Safari''] (terminal [''y''])) =
     Some (Msg ''the --large-files flag cannot be used with an application name'') \<and>
   World (Out (RunE noDiscovery False [] True False [''Safari''] (terminal [''y'']))) =
     terminal [''y''] \<and>
   RunErr (RunE noDiscovery False [] True False [] (terminal [''y''])) \<noteq>
     Some (Msg ''the --large-files flag cannot be used with an application name'')"
proof -
  have a: "True \<and> [''Safari''] \<noteq> ([] :: string list)" by simp
  have b: "\<not> (True \<and> ([] :: string list) \<noteq> [])" by simp
  from conflicting_flags_rejected_first [of noDiscovery False "[]" True False "[''Safari'']"
      "terminal [''y'']"] a
    conflicting_flags_rejected_first [of noDiscovery False "[]" True False "[]"
      "terminal [''y'']"] b
  show ?thesis by simp
qed

section \<open>The totals of the ledger\<close>

lemma interactive_run:
  "Entries (Summary (processCleanupItems items False True summary est title isApp w)) =
     Entries summary @ map2 (deletionEntry (FS w)) items (answers (length items) (Stdin w)) \<and>
   Reclaimed (processCleanupItems items False True summary est title isApp w) =
     removedBytes (map2 (deletionEntry (FS w)) items (answers (length items) (Stdin w))) \<and>
   Err (processCleanupItems items False True summary est title isApp w) = None"
proof (cases "items = []")
  case True
  then show ?thesis by (simp add: processCleanupItems_def removedBytes_def)
next
  case False
  let ?recorded = "map2 (deletionEntry (FS w)) items (answers (length items) (Stdin w))"
  obtain tableItems where agg: "aggregate items [] est =
     (tableItems, est\<lparr>Entries := Entries est @ map estimateEntry items\<rparr>)"
    by (rule aggregate_split)
  obtain a1 s1 w1 where il: "interactiveLoop items 0 summary w = (a1, s1, w1)"
    by (cases "interactiveLoop items 0 summary w")
  have a1: "a1 = removedBytes ?recorded"
    using interactiveLoop_total [of items 0 summary w] il by simp
  have s1: "s1 = summary\<lparr>Entries := Entries summary @ ?recorded\<rparr>"
    using interactiveLoop_entries [of items 0 summary w] il by simp
  show ?thesis
    using False il a1 s1 by (simp add: processCleanupItems_def agg)
qed

lemma threeFiles_recorded:
  "map2 (deletionEntry (FS (terminal [''y'', ''n'']))) threeFiles
     (answers (length threeFiles) (Stdin (terminal [''y'', ''n'']))) =
     [\<lparr>EntryPath = ''/tmp/a'', SizeReclaimed = 10, WasRemoved = True,
       EntryCategory = ''System Temporary Files''\<rparr>,
      \<lparr>EntryPath = ''/tmp/b'', SizeReclaimed = 20, WasRemoved = False,
       EntryCategory = ''System Temporary Files''\<rparr>,
      \<lparr>EntryPath = ''/tmp/c'', SizeReclaimed = 30, WasRemoved = False,
       EntryCategory = ''System Temporary Files''\<rparr>]"
  by (simp add: terminal_def threeFiles_def answers_y_n deletionEntry_def size_tmp_a sizes_tmp
      del: answers.simps)

lemma threeFiles_ledger:
  "Summary (processCleanupItems threeFiles False True NewSummaryTable NewSummaryTable
      ''Detected Large Files'' False (terminal [''y'', ''n''])) =
   \<lparr>Entries =
     [\<lparr>EntryPath = ''/tmp/a'', SizeReclaimed = 10, WasRemoved = True,
       EntryCategory = ''System Temporary Files''\<rparr>,
      \<lparr>EntryPath = ''/tmp/b'', SizeReclaimed = 20, WasRemoved = False,
       EntryCategory = ''System Temporary Files''\<rparr>,
      \<lparr>EntryPath = ''/tmp/c'', SizeReclaimed = 30, WasRemoved = False,
       EntryCategory = ''System Temporary Files''\<rparr>]\<rparr>"
  using interactive_run [of threeFiles NewSummaryTable NewSummaryTable
      "''Detected Large Files''" False "terminal [''y'', ''n'']"]
  by (simp add: threeFiles_recorded NewSummaryTable_def)

text \<open>
  The rows of the rendered table honour the flag of \<open>PrintTable\<close>: they add up to the
  bytes of all entries when it is set and to the bytes of the removed entries when it
  is not. The footer is \<open>TotalReclaimedBytes\<close>, which takes no flag and adds up all
  entries.
\<close>

lemma keys_addSize: "fst ` set (addSize k v m) = insert k (fst ` set m)"
proof (induction m)
  case Nil
  show ?case by simp
next
  case (Cons kv m)
  obtain k' t where kv: "kv = (k', t)" by (cases kv)
  show ?case
  proof (cases "k = k'")
    case True
    then show ?thesis using kv by auto
  next
    case False
    have "fst ` set ((k', t) # addSize k v m) = insert k' (insert k (fst ` set m))"
      using Cons.IH by simp
    then show ?thesis using False kv by auto
  qed
qed

lemma distinct_addSize: "distinct (map fst m) \<Longrightarrow> distinct (map fst (addSize k v m))"
proof (induction m)
  case Nil
  show ?case by simp
next
  case (Cons kv m)
  obtain k' t where kv: "kv = (k', t)" by (cases kv)
  show ?case
  proof (cases "k = k'")
    case True
    then show ?thesis using Cons.prems kv by simp
  next
    case False
    have "k' \<notin> fst ` set (addSize k v m)"
      using False Cons.prems kv by (simp add: keys_addSize)
    then show ?thesis using False Cons kv by simp
  qed
qed

lemma groupTotals_invariant:
  "distinct (map fst g) \<Longrightarrow>
   distinct (map fst (foldl (\<lambda>groupedTotals entry.
       if keep entry then addSize (EntryCategory entry) (SizeReclaimed entry) groupedTotals
       else groupedTotals) g entries)) \<and>
   sum_list (map snd (foldl (\<lambda>groupedTotals entry.
       if keep entry then addSize (EntryCategory entry) (SizeReclaimed entry) groupedTotals
       else groupedTotals) g entries)) =
     sum_list (map snd g) + sum_list (map SizeReclaimed (filter keep entries))"
proof (induction entries arbitrary: g)
  case Nil
  then show ?case by simp
next
  case (Cons entry entries)
  show ?case
  proof (cases "keep entry")
    case True
    have d: "distinct (map fst (addSize (EntryCategory entry) (SizeReclaimed entry) g))"
      using Cons.prems by (rule distinct_addSize)
    show ?thesis
      using True Cons.IH [OF d] by (simp add: sum_addSize add.assoc)
  next
    case False
    then show ?thesis using Cons.IH [OF Cons.prems] by simp
  qed
qed

lemma sum_list_insort:
  "sum_list (map f (insort x xs)) = f x + sum_list (map f xs)" for f :: "string \<Rightarrow> int64"
  by (induction xs) (simp_all add: add.left_commute)

lemma sum_list_sort:
  "sum_list (map f (sort xs)) = sum_list (map f xs)" for f :: "string \<Rightarrow> int64"
  by (induction xs) (simp_all add: sum_list_insort)

lemma lookupSize_keys:
  "distinct (map fst g) \<Longrightarrow>
     sum_list (map (\<lambda>kv. lookupSize g (fst kv)) g) = sum_list (map snd g)"
proof (induction g)
  case Nil
  show ?case by simp
next
  case (Cons kv g)
  obtain k v where kv: "kv = (k, v)" by (cases kv)
  have "\<forall>x\<in>set g. lookupSize ((k, v) # g) (fst x) = lookupSize g (fst x)"
    using Cons.prems kv by (auto simp: lookupSize_def)
  then have other: "map (\<lambda>x. lookupSize ((k, v) # g) (fst x)) g =
                    map (\<lambda>x. lookupSize g (fst x)) g"
    by (simp only: map_eq_conv)
  have here: "lookupSize ((k, v) # g) k = v" by (simp add: lookupSize_def)
  have "distinct (map fst g)"
    using Cons.prems by simp
  then have ih: "sum_list (map (\<lambda>kv. lookupSize g (fst kv)) g) = sum_list (map snd g)"
    by (rule Cons.IH)
  have "sum_list (map (\<lambda>x. lookupSize ((k, v) # g) (fst x)) ((k, v) # g)) =
          lookupSize ((k, v) # g) k + sum_list (map (\<lambda>x. lookupSize ((k, v) # g) (fst x)) g)"
    by simp
  also have "\<dots> = v + sum_list (map snd g)"
    by (simp only: other here ih)
  finally show ?case by (simp add: kv)
qed

lemma rows_of_table:
  assumes "PrintTable st dryRun title = Some t"
  shows "sum_list (map snd (Rows t)) =
           (if dryRun then sum_list (map SizeReclaimed (Entries st))
            else removedBytes (Entries st))"
    and "Footer t = sum_list (map SizeReclaimed (Entries st))"
proof -
  let ?g = "groupTotals dryRun (Entries st)"
  let ?selected = "if dryRun then sum_list (map SizeReclaimed (Entries st))
                   else removedBytes (Entries st)"
  have t: "t = \<lparr>Title = title,
                Rows = map (\<lambda>category. (category, lookupSize ?g category)) (sort (map fst ?g)),
                Footer = TotalReclaimedBytes st\<rparr>"
    using assms by (simp add: PrintTable_def Let_def split: if_splits)
  have inv: "distinct (map fst ?g) \<and> sum_list (map snd ?g) = ?selected"
  proof (cases dryRun)
    case True
    then show ?thesis
      using groupTotals_invariant [of "[]" "\<lambda>entry. True" "Entries st"]
      by (simp add: groupTotals_def)
  next
    case False
    then show ?thesis
      using groupTotals_invariant [of "[]" WasRemoved "Entries st"]
      by (simp add: groupTotals_def removedBytes_def)
  qed
  have d: "distinct (map fst ?g)" and total: "sum_list (map snd ?g) = ?selected"
    using inv by blast+
  have "map snd (Rows t) = map (lookupSize ?g) (sort (map fst ?g))"
    by (simp add: t comp_def)
  then have "sum_list (map snd (Rows t)) = sum_list (map (lookupSize ?g) (sort (map fst ?g)))"
    by (rule arg_cong)
  also have "\<dots> = sum_list (map (lookupSize ?g) (map fst ?g))"
    by (rule sum_list_sort)
  also have "\<dots> = sum_list (map (\<lambda>kv. lookupSize ?g (fst kv)) ?g)"
    by (simp add: comp_def)
  also have "\<dots> = sum_list (map snd ?g)"
    using d by (rule lookupSize_keys)
  also have "\<dots> = ?selected"
    by (rule total)
  finally show "sum_list (map snd (Rows t)) = ?selected" .
  show "Footer t = sum_list (map SizeReclaimed (Entries st))"
    by (simp add: t TotalReclaimedBytes_eq)
qed

text \<open>
  Claim C4. The total of the actual ledger is not the sum over the entries with
  \<open>removed = true\<close>: \<open>TotalReclaimedBytes\<close>, and with it the footer of the table rendered
  for the actual ledger, counts the entries that were not removed as well. In an
  interactive run over three files of 10, 20 and 30 bytes in which the first is accepted
  and the others are declined, the removed entries hold 10 bytes and the row of the table
  shows 10, while the total and the footer are 60.
\<close>

theorem footer_counts_entries_not_removed:
  "removedBytes (Entries (Summary (processCleanupItems threeFiles False True NewSummaryTable
      NewSummaryTable ''Detected Large Files'' False (terminal [''y'', ''n''])))) = 10 \<and>
   TotalReclaimedBytes (Summary (processCleanupItems threeFiles False True NewSummaryTable
      NewSummaryTable ''Detected Large Files'' False (terminal [''y'', ''n'']))) = 60 \<and>
   PrintTable (Summary (processCleanupItems threeFiles False True NewSummaryTable
      NewSummaryTable ''Detected Large Files'' False (terminal [''y'', ''n''])))
      False ''Reclaimed Disk Summary'' =
     Some \<lparr>Title = ''Reclaimed Disk Summary'',
           Rows = [(''System Temporary Files'', 10)], Footer = 60\<rparr>"
  by (simp add: threeFiles_ledger removedBytes_def TotalReclaimedBytes_def PrintTable_def
      groupTotals_def lookupSize_def)

section \<open>The ignore filter\<close>

text \<open>
  \<open>Clean\<close> on rooted paths: a path of real elements (neither empty, nor \<open>.\<close>, nor
  \<open>..\<close>) is its own cleaned form, cleaning is idempotent, and a doubled separator
  disappears.
\<close>

lemma splitSep_not_Nil: "splitSep p \<noteq> []"
  by (induction p) (auto split: list.split)

lemma splitSep_append: "splitSep (a @ sep # b) = splitSep a @ splitSep b"
proof (induction a)
  case Nil
  show ?case by simp
next
  case (Cons c a)
  obtain x xs where sa: "splitSep a = x # xs"
    using splitSep_not_Nil [of a] by (cases "splitSep a") auto
  show ?case using Cons sa by simp
qed

lemma splitSep_no_sep: "\<forall>x\<in>set (splitSep p). sep \<notin> set x"
  by (induction p) (auto split: list.split)

lemma cleanElems_append:
  "cleanElems rooted (xs @ ys) out = cleanElems rooted ys (cleanElems rooted xs out)"
  by (induction xs arbitrary: out) (auto split: list.split)

lemma cleanElems_skip:
  "e = [] \<or> e = ''.'' \<Longrightarrow> cleanElems rooted (e # es) out = cleanElems rooted es out"
  by auto

lemma cleanElems_up_root: "cleanElems True (''..'' # es) [] = cleanElems True es []"
  by simp

lemma cleanElems_up:
  "t \<noteq> ''..'' \<Longrightarrow> cleanElems rooted (''..'' # es) (t # ts) = cleanElems rooted es ts"
  by simp

lemma cleanElems_push:
  "e \<noteq> [] \<Longrightarrow> e \<noteq> ''.'' \<Longrightarrow> e \<noteq> ''..'' \<Longrightarrow>
     cleanElems rooted (e # es) out = cleanElems rooted es (e # out)"
  by simp

lemma cleanElems_real:
  "\<forall>x\<in>set xs. sep \<notin> set x \<Longrightarrow> \<forall>x\<in>set out. realElem x \<Longrightarrow>
   \<forall>x\<in>set (cleanElems True xs out). realElem x"
proof (induction xs arbitrary: out)
  case Nil
  then show ?case by simp
next
  case (Cons x xs)
  have rest: "\<forall>y\<in>set xs. sep \<notin> set y"
    using Cons.prems(1) by simp
  have here: "sep \<notin> set x"
    using Cons.prems(1) by simp
  consider (skip) "x = [] \<or> x = ''.''" | (up) "x = ''..''"
    | (push) "x \<noteq> []" "x \<noteq> ''.''" "x \<noteq> ''..''"
    by blast
  then show ?case
  proof cases
    case skip
    have "cleanElems True (x # xs) out = cleanElems True xs out"
      using skip by (rule cleanElems_skip)
    then show ?thesis
      using Cons.IH [OF rest Cons.prems(2)] by (simp only:)
  next
    case up
    show ?thesis
    proof (cases out)
      case Nil
      have "cleanElems True (x # xs) out = cleanElems True xs []"
        by (simp only: up Nil cleanElems_up_root)
      moreover have "\<forall>y\<in>set (cleanElems True xs []). realElem y"
        by (rule Cons.IH [OF rest]) simp
      ultimately show ?thesis by (simp only:)
    next
      case (Cons t ts)
      have "realElem t"
        using Cons.prems(2) Cons by simp
      then have t: "t \<noteq> ''..''"
        by (auto simp only: realElem_def)
      have ts: "\<forall>y\<in>set ts. realElem y"
        using Cons.prems(2) Cons by simp
      have "cleanElems True (x # xs) out = cleanElems True xs ts"
        by (simp only: up Cons cleanElems_up [OF t])
      moreover have "\<forall>y\<in>set (cleanElems True xs ts). realElem y"
        by (rule Cons.IH [OF rest ts])
      ultimately show ?thesis by (simp only:)
    qed
  next
    case push
    have "realElem x"
      using push here by (simp only: realElem_def) blast
    then have all: "\<forall>y\<in>set (x # out). realElem y"
      using Cons.prems(2) by simp
    have "cleanElems True (x # xs) out = cleanElems True xs (x # out)"
      using push by (rule cleanElems_push)
    moreover have "\<forall>y\<in>set (cleanElems True xs (x # out)). realElem y"
      by (rule Cons.IH [OF rest all])
    ultimately show ?thesis by (simp only:)
  qed
qed

lemma cleanElems_of_real:
  "\<forall>x\<in>set xs. realElem x \<Longrightarrow> cleanElems rooted xs out = rev xs @ out"
  by (induction xs arbitrary: out) (auto simp: realElem_def)

lemma splitSep_no_sep_id: "sep \<notin> set x \<Longrightarrow> splitSep x = [x]"
  by (induction x) auto

lemma splitSep_joinSep:
  "xs \<noteq> [] \<Longrightarrow> \<forall>x\<in>set xs. sep \<notin> set x \<Longrightarrow> splitSep (joinSep xs) = xs"
proof (induction xs rule: joinSep.induct)
  case 1
  then show ?case by simp
next
  case (2 e)
  then show ?case by (simp add: splitSep_no_sep_id)
next
  case (3 e v va)
  then show ?case by (simp add: splitSep_append splitSep_no_sep_id)
qed

lemma Clean_rooted:
  assumes "p \<noteq> []" and "hd p = sep"
  shows "Clean p = sep # joinSep (rev (cleanElems True (splitSep p) []))"
  using assms by (simp add: Clean_def Let_def)

lemma Clean_of_real:
  assumes "\<forall>x\<in>set xs. realElem x"
  shows "Clean (sep # joinSep xs) = sep # joinSep xs"
proof (cases "xs = []")
  case True
  then show ?thesis by (simp add: Clean_def Let_def)
next
  case False
  have ns: "\<forall>x\<in>set xs. sep \<notin> set x" using assms by (simp add: realElem_def)
  have "splitSep (sep # joinSep xs) = [] # xs"
    using splitSep_joinSep [OF False ns] by simp
  then have "cleanElems True (splitSep (sep # joinSep xs)) [] = rev xs"
    using cleanElems_of_real [OF assms, of True "[]"] by simp
  then show ?thesis by (simp add: Clean_def Let_def)
qed

lemma Clean_idem_rooted:
  assumes "p \<noteq> []" and "hd p = sep"
  shows "Clean (Clean p) = Clean p"
proof -
  have "\<forall>x\<in>set (cleanElems True (splitSep p) []). realElem x"
    using cleanElems_real [of "splitSep p" "[]"] splitSep_no_sep [of p] by simp
  then have "\<forall>x\<in>set (rev (cleanElems True (splitSep p) [])). realElem x" by simp
  then show ?thesis
    by (simp only: Clean_rooted [OF assms] Clean_of_real)
qed

lemma Clean_extra_sep:
  assumes "h \<noteq> []" and "rest = [] \<or> hd rest = sep"
  shows "Clean (h @ sep # rest) = Clean (h @ rest)"
proof -
  have elems: "cleanElems r (splitSep (h @ sep # rest)) [] = cleanElems r (splitSep (h @ rest)) []" for r
  proof (cases rest)
    case Nil
    then show ?thesis by (simp add: splitSep_append cleanElems_append)
  next
    case (Cons c rest')
    then have c: "c = sep" using assms(2) by simp
    show ?thesis
      using Cons c by (simp add: splitSep_append cleanElems_append)
  qed
  have hd: "hd (h @ sep # rest) = hd (h @ rest)" using assms(1) by simp
  show ?thesis
    using assms(1) by (simp add: Clean_def Let_def elems)
qed

lemma IsAbs_iff: "IsAbs p \<longleftrightarrow> p \<noteq> [] \<and> hd p = sep"
  by (cases p) (auto simp: IsAbs_def HasPrefix_def)

lemma IsAbs_Clean: "IsAbs p \<Longrightarrow> IsAbs (Clean p)"
  by (simp add: IsAbs_iff Clean_def Let_def)

lemma canonical_absolute: "IsAbs p \<Longrightarrow> canonical e p = Some (Clean p)"
  by (simp add: canonical_def Abs_def) (simp add: IsAbs_iff Clean_idem_rooted)

text \<open>
  \<open>ExpandPath\<close> on the spellings of the home directory.
\<close>

lemma Contains_append_right: "Contains b x \<Longrightarrow> Contains (a @ b) x"
  by (induction a) simp_all

lemma ReplaceAll_none: "\<not> Contains s old \<Longrightarrow> ReplaceAll s old new = s"
  by (induction s) simp_all

lemma HasPrefix_append: "HasPrefix (old @ rest) old"
  by (simp add: HasPrefix_def)

lemma Contains_prefix: "old \<noteq> [] \<Longrightarrow> Contains (old @ rest) old"
  by (cases old) (simp_all add: HasPrefix_def)

lemma ReplaceAll_prefix:
  "old \<noteq> [] \<Longrightarrow> ReplaceAll (old @ rest) old new = new @ ReplaceAll rest old new"
  by (cases old) (simp_all add: HasPrefix_def)

lemma braces_hide_dollar_home:
  "\<not> Contains rest ''$HOME'' \<Longrightarrow> \<not> Contains (''${HOME}'' @ rest) ''$HOME''"
  by (simp add: HasPrefix_def)

lemma ExpandPath_tilde:
  "HOME e \<noteq> [] \<Longrightarrow> ExpandPath e (''~'' @ rest) = Clean (HOME e @ sep # rest)"
  by (simp add: ExpandPath_def HasPrefix_def UserHomeDir_def Join_def)

lemma ExpandPath_dollar:
  "HOME e \<noteq> [] \<Longrightarrow> \<not> Contains rest ''$HOME'' \<Longrightarrow>
     ExpandPath e (''$HOME'' @ rest) = HOME e @ rest"
proof -
  assume h: "HOME e \<noteq> []" and r: "\<not> Contains rest ''$HOME''"
  have a: "\<not> HasPrefix (''$HOME'' @ rest) ''~''" by (simp add: HasPrefix_def)
  have b: "Contains (''$HOME'' @ rest) ''$HOME''" by (rule Contains_prefix) simp
  have "ReplaceAll (''$HOME'' @ rest) ''$HOME'' (HOME e) =
          HOME e @ ReplaceAll rest ''$HOME'' (HOME e)"
    by (rule ReplaceAll_prefix) simp
  then have c: "ReplaceAll (''$HOME'' @ rest) ''$HOME'' (HOME e) = HOME e @ rest"
    using ReplaceAll_none [OF r] by simp
  show ?thesis
    unfolding ExpandPath_def using h by (simp only: a b c Let_def if_True if_False) simp
qed

lemma ExpandPath_braces:
  "HOME e \<noteq> [] \<Longrightarrow> \<not> Contains rest ''$HOME'' \<Longrightarrow> \<not> Contains rest ''${HOME}'' \<Longrightarrow>
     ExpandPath e (''${HOME}'' @ rest) = HOME e @ rest"
proof -
  assume h: "HOME e \<noteq> []" and r1: "\<not> Contains rest ''$HOME''"
    and r2: "\<not> Contains rest ''${HOME}''"
  have a: "\<not> HasPrefix (''${HOME}'' @ rest) ''~''" by (simp add: HasPrefix_def)
  have b: "\<not> Contains (''${HOME}'' @ rest) ''$HOME''"
    using r1 by (rule braces_hide_dollar_home)
  have b2: "Contains (''${HOME}'' @ rest) ''${HOME}''" by (rule Contains_prefix) simp
  have "ReplaceAll (''${HOME}'' @ rest) ''${HOME}'' (HOME e) =
          HOME e @ ReplaceAll rest ''${HOME}'' (HOME e)"
    by (rule ReplaceAll_prefix) simp
  then have c: "ReplaceAll (''${HOME}'' @ rest) ''${HOME}'' (HOME e) = HOME e @ rest"
    using ReplaceAll_none [OF r2] by simp
  show ?thesis
    unfolding ExpandPath_def using h by (simp only: a b b2 c Let_def if_True if_False) simp
qed

lemma ExpandPath_literal:
  "\<not> HasPrefix p ''~'' \<Longrightarrow> \<not> Contains p ''$HOME'' \<Longrightarrow> \<not> Contains p ''${HOME}'' \<Longrightarrow>
     ExpandPath e p = p"
  by (simp add: ExpandPath_def)

text \<open>
  Joining and splitting the elements of a cleaned rooted path.
\<close>

lemma HasPrefix_sep_iff: "HasPrefix t (i @ [sep]) \<longleftrightarrow> (\<exists>more. t = i @ sep # more)"
proof
  assume "HasPrefix t (i @ [sep])"
  then have "take (Suc (length i)) t = i @ [sep]"
    by (simp add: HasPrefix_def)
  then have "t = (i @ [sep]) @ drop (Suc (length i)) t"
    by (metis append_take_drop_id)
  then show "\<exists>more. t = i @ sep # more"
    by auto
next
  assume "\<exists>more. t = i @ sep # more"
  then show "HasPrefix t (i @ [sep])"
    by (auto simp: HasPrefix_def)
qed

lemma joinSep_append:
  "xs \<noteq> [] \<Longrightarrow> ys \<noteq> [] \<Longrightarrow> joinSep (xs @ ys) = joinSep xs @ sep # joinSep ys"
proof (induction xs rule: joinSep.induct)
  case 1
  then show ?case by simp
next
  case (2 e)
  then show ?case by (cases ys) simp_all
next
  case (3 e v va)
  then show ?case by simp
qed

lemma joinSep_hd:
  assumes "\<forall>x\<in>set xs. realElem x" and "xs \<noteq> []"
  shows "joinSep xs \<noteq> [] \<and> hd (joinSep xs) \<noteq> sep"
proof -
  obtain x rest where xs: "xs = x # rest"
    using assms(2) by (cases xs) auto
  then have x: "x \<noteq> []" "sep \<notin> set x"
    using assms(1) by (auto simp: realElem_def)
  then have "hd x \<noteq> sep"
    by (cases x) auto
  then show ?thesis
    using x xs by (cases rest) auto
qed

lemma components_rooted:
  assumes "\<forall>x\<in>set xs. realElem x"
  shows "components (sep # joinSep xs) = xs"
proof (cases "xs = []")
  case True
  then show ?thesis by (simp add: components_def)
next
  case False
  have nosep: "\<forall>x\<in>set xs. sep \<notin> set x"
    using assms by (simp add: realElem_def)
  have "filter (\<lambda>x. x \<noteq> []) xs = xs"
    using assms by (simp add: realElem_def filter_id_conv)
  then show ?thesis
    using splitSep_joinSep [OF False nosep] by (simp add: components_def)
qed

lemma Clean_shape:
  assumes "IsAbs a"
  shows "\<exists>xs. (\<forall>x\<in>set xs. realElem x) \<and> Clean a = sep # joinSep xs"
proof -
  have a: "a \<noteq> []" "hd a = sep"
    using assms by (simp_all add: IsAbs_iff)
  have "\<forall>x\<in>set (cleanElems True (splitSep a) []). realElem x"
    using cleanElems_real [of "splitSep a" "[]"] splitSep_no_sep [of a] by simp
  then have "\<forall>x\<in>set (rev (cleanElems True (splitSep a) [])). realElem x"
    by simp
  then show ?thesis
    using Clean_rooted [OF a] by blast
qed

text \<open>
  The prefix test of \<open>ContainsPath\<close> on two cleaned rooted paths. Below an ancestor
  that has elements it is the descendant relation. The cleaned root is the separator
  alone, the prefix tested for it is the doubled separator, and no cleaned path starts
  with that.
\<close>

lemma prefix_test_below_elements:
  assumes xs: "\<forall>x\<in>set xs. realElem x" and ys: "\<forall>x\<in>set ys. realElem x" and ne: "xs \<noteq> []"
  shows "HasPrefix (sep # joinSep ys) ((sep # joinSep xs) @ [sep]) \<longleftrightarrow>
           length xs < length ys \<and> take (length xs) ys = xs"
proof
  assume "HasPrefix (sep # joinSep ys) ((sep # joinSep xs) @ [sep])"
  then obtain more where eq: "joinSep ys = joinSep xs @ sep # more"
    using HasPrefix_sep_iff [of "sep # joinSep ys" "sep # joinSep xs"] by auto
  then have yne: "ys \<noteq> []"
    by auto
  have nx: "\<forall>x\<in>set xs. sep \<notin> set x" and ny: "\<forall>x\<in>set ys. sep \<notin> set x"
    using xs ys by (simp_all add: realElem_def)
  have "ys = splitSep (joinSep ys)"
    using splitSep_joinSep [OF yne ny] by simp
  also have "\<dots> = splitSep (joinSep xs) @ splitSep more"
    by (simp only: eq splitSep_append)
  also have "\<dots> = xs @ splitSep more"
    using splitSep_joinSep [OF ne nx] by simp
  finally have "ys = xs @ splitSep more" .
  then show "length xs < length ys \<and> take (length xs) ys = xs"
    using splitSep_not_Nil [of more] by (metis append_eq_conv_conj length_append
        length_greater_0_conv less_add_same_cancel1)
next
  assume "length xs < length ys \<and> take (length xs) ys = xs"
  then have "ys = xs @ drop (length xs) ys" and "drop (length xs) ys \<noteq> []"
    by (metis append_take_drop_id, simp)
  then have "joinSep ys = joinSep xs @ sep # joinSep (drop (length xs) ys)"
    using joinSep_append [OF ne, of "drop (length xs) ys"] by simp
  then show "HasPrefix (sep # joinSep ys) ((sep # joinSep xs) @ [sep])"
    using HasPrefix_sep_iff [of "sep # joinSep ys" "sep # joinSep xs"] by auto
qed

lemma prefix_test_below_root:
  assumes ys: "\<forall>x\<in>set ys. realElem x"
  shows "\<not> HasPrefix (sep # joinSep ys) ([sep] @ [sep])"
proof
  assume "HasPrefix (sep # joinSep ys) ([sep] @ [sep])"
  then obtain more where eq: "joinSep ys = sep # more"
    using HasPrefix_sep_iff [of "sep # joinSep ys" "[sep]"] by auto
  then have "ys \<noteq> []"
    by auto
  then show False
    using joinSep_hd [OF ys] eq by simp
qed

lemma prefix_test_descendant:
  assumes a: "IsAbs a" and b: "IsAbs b"
  shows "HasPrefix (Clean a) (Clean b @ [sep]) \<longleftrightarrow>
           descendant (Clean a) (Clean b) \<and> Clean b \<noteq> [sep]"
proof -
  obtain ys where ys: "\<forall>x\<in>set ys. realElem x" and ca: "Clean a = sep # joinSep ys"
    using Clean_shape [OF a] by blast
  obtain xs where xs: "\<forall>x\<in>set xs. realElem x" and cb: "Clean b = sep # joinSep xs"
    using Clean_shape [OF b] by blast
  have d: "descendant (Clean a) (Clean b) \<longleftrightarrow> length xs < length ys \<and> take (length xs) ys = xs"
    by (simp add: descendant_def ca cb components_rooted [OF xs] components_rooted [OF ys])
  show ?thesis
  proof (cases "xs = []")
    case True
    then show ?thesis
      using prefix_test_below_root [OF ys] by (simp add: ca cb)
  next
    case False
    then have "joinSep xs \<noteq> []"
      using joinSep_hd [OF xs] by simp
    then show ?thesis
      using prefix_test_below_elements [OF xs ys False] d by (simp add: ca cb)
  qed
qed

text \<open>
  \<open>filepath.Abs\<close> returns a rooted path: the working directory that \<open>os.Getwd\<close> returns
  is rooted.
\<close>

lemma Abs_rooted:
  assumes "\<forall>wd. Cwd e = Some wd \<longrightarrow> IsAbs wd" and "Abs e p = Inr a"
  shows "IsAbs a"
proof (cases "IsAbs p")
  case True
  then show ?thesis
    using assms(2) IsAbs_Clean [OF True] by (auto simp: Abs_def)
next
  case False
  then obtain wd where wd: "Cwd e = Some wd" and a: "a = Join wd p"
    using assms(2) by (auto simp: Abs_def split: option.splits)
  then have w: "IsAbs wd"
    using assms(1) by simp
  then have "IsAbs (wd @ sep # p)"
    by (simp add: IsAbs_iff)
  then show ?thesis
    using IsAbs_Clean w a by (simp add: Join_def IsAbs_iff)
qed

text \<open>
  The loop over the ignore entries is an existential over them, and \<open>ContainsPath\<close> is
  containment in an entry that is not the root.
\<close>

lemma containsLoop_iff:
  "containsLoop e a ignorePaths \<longleftrightarrow>
     (\<exists>entry\<in>set ignorePaths. \<exists>i. Abs e (ExpandPath e entry) = Inr i \<and>
        (Clean a = Clean i \<or> HasPrefix (Clean a) (Clean i @ [sep])))"
  by (induction ignorePaths) (auto simp: Let_def split: sum.splits)

lemma ContainsPath_iff_code:
  "ContainsPath e target ignorePaths \<longleftrightarrow>
     (\<exists>entry\<in>set ignorePaths. \<exists>t i. canonical e target = Some t \<and>
        canonical e (ExpandPath e entry) = Some i \<and> (t = i \<or> HasPrefix t (i @ [sep])))"
proof (cases "Abs e target")
  case (Inl err)
  then show ?thesis
    by (simp add: ContainsPath_def canonical_def)
next
  case (Inr a)
  have "(\<exists>i. Abs e (ExpandPath e entry) = Inr i \<and>
             (Clean a = Clean i \<or> HasPrefix (Clean a) (Clean i @ [sep]))) \<longleftrightarrow>
        (\<exists>t i. canonical e target = Some t \<and>
        canonical e (ExpandPath e entry) = Some i \<and> (t = i \<or> HasPrefix t (i @ [sep])))" for entry
    using Inr by (cases "Abs e (ExpandPath e entry)") (simp_all add: canonical_def)
  then show ?thesis
    using Inr by (simp add: ContainsPath_def containsLoop_iff)
qed

lemma canonical_rooted:
  assumes "\<forall>wd. Cwd e = Some wd \<longrightarrow> IsAbs wd" and "canonical e p = Some c"
  shows "\<exists>a. IsAbs a \<and> c = Clean a"
proof -
  obtain a where a: "Abs e p = Inr a" and c: "c = Clean a"
    using assms(2) by (auto simp: canonical_def split: sum.splits)
  then show ?thesis
    using Abs_rooted [OF assms(1) a] by blast
qed

lemma ContainsPath_iff:
  assumes cwd: "\<forall>wd. Cwd e = Some wd \<longrightarrow> IsAbs wd"
  shows "ContainsPath e target ignorePaths \<longleftrightarrow>
     (\<exists>entry\<in>set ignorePaths. ignoredBy e target entry \<and>
        (canonical e (ExpandPath e entry) = Some [sep] \<longrightarrow> canonical e target = Some [sep]))"
proof -
  have "(\<exists>t i. canonical e target = Some t \<and>
        canonical e (ExpandPath e entry) = Some i \<and> (t = i \<or> HasPrefix t (i @ [sep]))) \<longleftrightarrow>
        (ignoredBy e target entry \<and>
        (canonical e (ExpandPath e entry) = Some [sep] \<longrightarrow> canonical e target = Some [sep]))"
    for entry
  proof (cases "canonical e target")
    case None
    then show ?thesis by (simp add: ignoredBy_def)
  next
    case t: (Some t)
    show ?thesis
    proof (cases "canonical e (ExpandPath e entry)")
      case None
      then show ?thesis by (simp add: ignoredBy_def t)
    next
      case i: (Some i)
      obtain a where a: "IsAbs a" "t = Clean a"
        using canonical_rooted [OF cwd t] by blast
      obtain b where b: "IsAbs b" "i = Clean b"
        using canonical_rooted [OF cwd i] by blast
      show ?thesis
        using prefix_test_descendant [OF a(1) b(1)] a(2) b(2)
        by (auto simp: ignoredBy_def t i)
    qed
  qed
  then show ?thesis
    by (simp add: ContainsPath_iff_code)
qed

lemma ContainsPath_no_root_entry:
  assumes "\<forall>wd. Cwd e = Some wd \<longrightarrow> IsAbs wd"
    and "\<forall>entry\<in>set ignorePaths. canonical e (ExpandPath e entry) \<noteq> Some [sep]"
  shows "ContainsPath e target ignorePaths \<longleftrightarrow> (\<exists>entry\<in>set ignorePaths. ignoredBy e target entry)"
  using assms(2) by (auto simp: ContainsPath_iff [OF assms(1)])

lemma ContainsPath_sound:
  assumes "\<forall>wd. Cwd e = Some wd \<longrightarrow> IsAbs wd" and "ContainsPath e target ignorePaths"
  shows "\<exists>entry\<in>set ignorePaths. ignoredBy e target entry"
  using assms(2) by (auto simp: ContainsPath_iff [OF assms(1)])

text \<open>
  The verdict does not depend on the spelling of the home directory in an entry: with a
  rooted home directory, and a remainder that is empty or starts with a separator and
  brings no further placeholder into the path, the entries \<open>~rest\<close>, \<open>$HOME rest\<close> and
  \<open>${HOME} rest\<close> expand to the canonical form of the literal entry \<open>home rest\<close>.
\<close>

lemma same_canonical_same_verdict:
  assumes "canonical e (ExpandPath e s1) = canonical e (ExpandPath e s2)"
  shows "ContainsPath e target (before @ s1 # after) = ContainsPath e target (before @ s2 # after)"
  using assms by (simp add: ContainsPath_iff_code)

lemma canonical_spellings:
  assumes abs: "IsAbs (HOME e)" and rest: "rest = [] \<or> hd rest = sep"
    and d: "\<not> Contains (HOME e @ rest) ''$HOME''"
    and b: "\<not> Contains (HOME e @ rest) ''${HOME}''"
  shows "canonical e (ExpandPath e (''~'' @ rest)) = Some (Clean (HOME e @ rest))"
    and "canonical e (ExpandPath e (''$HOME'' @ rest)) = Some (Clean (HOME e @ rest))"
    and "canonical e (ExpandPath e (''${HOME}'' @ rest)) = Some (Clean (HOME e @ rest))"
    and "canonical e (ExpandPath e (HOME e @ rest)) = Some (Clean (HOME e @ rest))"
proof -
  have h: "HOME e \<noteq> []" using abs by (simp add: IsAbs_iff)
  have full: "IsAbs (HOME e @ rest)" using abs by (simp add: IsAbs_iff)
  have r1: "\<not> Contains rest ''$HOME''" using d Contains_append_right by blast
  have r2: "\<not> Contains rest ''${HOME}''" using b Contains_append_right by blast
  have nt: "\<not> HasPrefix (HOME e @ rest) ''~''"
    using abs h by (cases "HOME e") (simp_all add: IsAbs_iff HasPrefix_def sep_def)
  have "ExpandPath e (''~'' @ rest) = Clean (HOME e @ rest)"
    using ExpandPath_tilde [OF h, of rest] Clean_extra_sep [OF h rest] by simp
  then show "canonical e (ExpandPath e (''~'' @ rest)) = Some (Clean (HOME e @ rest))"
    using canonical_absolute [OF IsAbs_Clean [OF full], of e] full
    by (simp add: IsAbs_iff Clean_idem_rooted)
  show "canonical e (ExpandPath e (''$HOME'' @ rest)) = Some (Clean (HOME e @ rest))"
    using ExpandPath_dollar [OF h r1] canonical_absolute [OF full, of e] by simp
  show "canonical e (ExpandPath e (''${HOME}'' @ rest)) = Some (Clean (HOME e @ rest))"
    using ExpandPath_braces [OF h r1 r2] canonical_absolute [OF full, of e] by simp
  show "canonical e (ExpandPath e (HOME e @ rest)) = Some (Clean (HOME e @ rest))"
    using ExpandPath_literal [OF nt d b, of e] canonical_absolute [OF full, of e] by simp
qed

lemma spelling_independent:
  assumes abs: "IsAbs (HOME e)" and rest: "rest = [] \<or> hd rest = sep"
    and d: "\<not> Contains (HOME e @ rest) ''$HOME''"
    and b: "\<not> Contains (HOME e @ rest) ''${HOME}''"
  shows "ContainsPath e target (before @ (''~'' @ rest) # after) =
           ContainsPath e target (before @ (HOME e @ rest) # after)"
    and "ContainsPath e target (before @ (''$HOME'' @ rest) # after) =
           ContainsPath e target (before @ (HOME e @ rest) # after)"
    and "ContainsPath e target (before @ (''${HOME}'' @ rest) # after) =
           ContainsPath e target (before @ (HOME e @ rest) # after)"
  by (rule same_canonical_same_verdict, simp only: canonical_spellings [OF abs rest d b])+

text \<open>
  An entry below the home directory \<open>/Users/a\<close>, in its four spellings.
\<close>

lemma home_downloads_literal:
  "ignoredBy homeEnv ''/Users/a/Downloads/x/../big.iso'' ''/Users/a/Downloads'' \<and>
   \<not> ignoredBy homeEnv ''/Users/a/Downloadsx/big.iso'' ''/Users/a/Downloads''"
  by code_simp

lemma home_downloads_spellings:
  "ContainsPath homeEnv ''/Users/a/Downloads/x/../big.iso'' [''/Users/a/Downloads''] \<and>
   ContainsPath homeEnv ''/Users/a/Downloads/x/../big.iso'' [''~/Downloads''] \<and>
   ContainsPath homeEnv ''/Users/a/Downloads/x/../big.iso'' [''$HOME/Downloads''] \<and>
   ContainsPath homeEnv ''/Users/a/Downloads/x/../big.iso'' [''${HOME}/Downloads'']"
proof -
  have home: "HOME homeEnv = ''/Users/a''"
    by (simp add: homeEnv_def)
  have hyps: "IsAbs (HOME homeEnv)" "''/Downloads'' = [] \<or> hd ''/Downloads'' = sep"
    "\<not> Contains (HOME homeEnv @ ''/Downloads'') ''$HOME''"
    "\<not> Contains (HOME homeEnv @ ''/Downloads'') ''${HOME}''"
    by code_simp+
  have cwd: "\<forall>wd. Cwd homeEnv = Some wd \<longrightarrow> IsAbs wd"
    by (simp add: homeEnv_def IsAbs_def HasPrefix_def sep_def)
  have root: "\<forall>entry\<in>set [''/Users/a/Downloads'']. canonical homeEnv (ExpandPath homeEnv entry) \<noteq> Some [sep]"
    using canonical_spellings(4) [OF hyps] by (simp add: home) code_simp
  have lit: "ContainsPath homeEnv ''/Users/a/Downloads/x/../big.iso'' [''/Users/a/Downloads'']"
    using ContainsPath_no_root_entry [OF cwd root] home_downloads_literal by simp
  show ?thesis
    using lit spelling_independent [OF hyps, of "''/Users/a/Downloads/x/../big.iso''" "[]" "[]"]
    by (simp add: home)
qed

text \<open>
  Claim C7. The ignore check does not hold for every target whose canonical form is a
  descendant of the canonical form of an ignore entry: the root as an ignore entry
  covers the root and nothing below it. The canonical forms of \<open>/foo\<close> and of the entry
  \<open>/\<close> are \<open>/foo\<close> and \<open>/\<close>, the first is a descendant of the second, and \<open>ContainsPath\<close>
  answers no.
\<close>

theorem root_entry_covers_nothing_below:
  "canonical homeEnv ''/foo'' = Some ''/foo'' \<and>
   canonical homeEnv (ExpandPath homeEnv ''/'') = Some ''/'' \<and>
   descendant ''/foo'' ''/'' \<and>
   ignoredBy homeEnv ''/foo'' ''/'' \<and>
   ContainsPath homeEnv ''/foo'' [''/''] = False \<and>
   ContainsPath homeEnv ''/'' [''/''] = True"
  by code_simp

end
